theory Spec2Isabelle
  imports Complex_Main "HOL-Library.AList"
begin

section \<open>Artifact commands and the middleware chain\<close>

text \<open>
  \<^verbatim>\<open>src/core/artifacts/commands.py\<close>: the status and operation enums and the frozen
  command record. The content of a command is one of the shapes the save handler
  distinguishes with \<^verbatim>\<open>isinstance\<close>: a dict or list (written as JSON), a string, bytes,
  or anything else.
\<close>

datatype CommandStatus = Cmd_PENDING | Cmd_IN_PROGRESS | Cmd_COMPLETED | Cmd_FAILED

datatype ArtifactOperation = SAVE | DELETE | UPDATE

datatype artifact_content =
    ContentJson string
  | ContentStr string
  | ContentBytes "nat list"
  | ContentOther

record ArtifactCommand =
  operation :: ArtifactOperation
  task_id :: string
  filename :: string
  content :: artifact_content
  content_type :: string
  cmd_id :: nat
  subdir :: "string option"
  metadata :: "(string \<times> string) list"
  timestamp :: nat
  status :: CommandStatus
  error :: "string option"

definition with_status :: "ArtifactCommand \<Rightarrow> CommandStatus \<Rightarrow> string option \<Rightarrow> ArtifactCommand" where
  "with_status c st err = c\<lparr>status := st, error := err\<rparr>"

text \<open>
  \<^verbatim>\<open>src/core/artifacts/middleware.py\<close>: a handler that raises is wrapped into a
  \<^verbatim>\<open>MiddlewareError(message, handler_name, command_id)\<close>, whose text is
  \<^verbatim>\<open>"{handler_name}: {message} (command: {command_id})"\<close>.
\<close>

record MiddlewareError =
  me_message :: string
  me_handler_name :: string
  me_command_id :: nat

definition show_id :: "nat \<Rightarrow> string" where
  "show_id n = replicate n (CHR ''i'')"

definition str_MiddlewareError :: "MiddlewareError \<Rightarrow> string" where
  "str_MiddlewareError e =
     me_handler_name e @ '': '' @ me_message e @ '' (command: '' @ show_id (me_command_id e) @ '')''"

text \<open>
  The four handlers that \<^verbatim>\<open>setup_default_handlers\<close> installs are bound methods of the
  command handler; the chain \<^verbatim>\<open>middleware.handlers\<close> is the list of them, in the order of
  the calls to \<^verbatim>\<open>use\<close>.
\<close>

datatype handler =
    validate_command
  | prepare_directories
  | save_to_disk
  | record_command

definition handler_name :: "handler \<Rightarrow> string" where
  "handler_name h = (case h of
       validate_command \<Rightarrow> ''validate_command''
     | prepare_directories \<Rightarrow> ''prepare_directories''
     | save_to_disk \<Rightarrow> ''save_to_disk''
     | record_command \<Rightarrow> ''record_command'')"

text \<open>
  The disk is outside the program. It is a state of any type \<open>'fs\<close> with two operations
  taken as parameters: \<open>mkdir\<close> (\<^verbatim>\<open>Path.mkdir(parents=True, exist_ok=True)\<close>), which
  raises with a message or returns the new disk, and \<open>write\<close> (open and write a file),
  which raises \<^verbatim>\<open>FileNotFoundError\<close>, raises another exception, or returns the new disk.
\<close>

datatype 'fs write_result =
    WriteOk 'fs
  | WriteFileNotFound bool
  | WriteError string

record 'fs disk_ops =
  mkdir :: "string list \<Rightarrow> 'fs \<Rightarrow> string + 'fs"
  write_file :: "string list \<Rightarrow> artifact_content \<Rightarrow> 'fs \<Rightarrow> 'fs write_result"

record 'fs ArtifactCommandHandler =
  base_dir :: "string list"
  handlers :: "handler list"
  command_history :: "ArtifactCommand list"
  disk :: 'fs

definition truthy_opt_str :: "string option \<Rightarrow> bool" where
  "truthy_opt_str s = (case s of None \<Rightarrow> False | Some t \<Rightarrow> t \<noteq> [])"

definition get_artifact_path_cmd :: "string list \<Rightarrow> ArtifactCommand \<Rightarrow> string list" where
  "get_artifact_path_cmd base c =
     (let path = base @ [task_id c];
          path = (if truthy_opt_str (subdir c) then path @ [the (subdir c)] else path)
      in path @ [filename c])"

definition show_path :: "string list \<Rightarrow> string" where
  "show_path p = concat (map (\<lambda>s. CHR ''/'' # s) p)"

definition show_bool :: "bool \<Rightarrow> string" where
  "show_bool b = (if b then ''True'' else ''False'')"

text \<open>
  One handler call, with the wrapper of \<^verbatim>\<open>create_middleware_handler\<close>: the result is
  the raised \<^verbatim>\<open>MiddlewareError\<close> or the returned command, together with the state of the
  command handler after the call (what was written before a raise stays written).
\<close>

definition run_handler ::
  "'fs disk_ops \<Rightarrow> handler \<Rightarrow> ArtifactCommand \<Rightarrow> 'fs ArtifactCommandHandler
     \<Rightarrow> (MiddlewareError + ArtifactCommand option) \<times> 'fs ArtifactCommandHandler" where
  "run_handler ops h c s = (case h of
       validate_command \<Rightarrow>
         (if task_id c = [] \<or> filename c = []
          then (Inl \<lparr>me_message = ''Command must have task_id and filename'',
                     me_handler_name = ''validate_command'', me_command_id = cmd_id c\<rparr>, s)
          else (Inr (Some (with_status c Cmd_IN_PROGRESS None)), s))
     | prepare_directories \<Rightarrow>
         (let task_dir = base_dir s @ [task_id c];
              task_dir = (if truthy_opt_str (subdir c) then task_dir @ [the (subdir c)] else task_dir)
          in case mkdir ops task_dir (disk s) of
               Inl msg \<Rightarrow> (Inl \<lparr>me_message = msg, me_handler_name = ''prepare_directories'',
                                 me_command_id = cmd_id c\<rparr>, s)
             | Inr d \<Rightarrow> (Inr (Some c), s\<lparr>disk := d\<rparr>))
     | save_to_disk \<Rightarrow>
         (let file_path = get_artifact_path_cmd (base_dir s) c
          in case content c of
               ContentOther \<Rightarrow>
                 (Inr (Some (with_status c Cmd_FAILED (Some ''Unsupported content type''))), s)
             | _ \<Rightarrow>
                 (case write_file ops file_path (content c) (disk s) of
                    WriteOk d \<Rightarrow> (Inr (Some (with_status c Cmd_COMPLETED None)), s\<lparr>disk := d\<rparr>)
                  | WriteFileNotFound parent_exists \<Rightarrow>
                      (Inr (Some (with_status c Cmd_FAILED
                         (Some (''FileNotFoundError: '' @ show_path file_path
                                 @ ''. Parent dir exists: '' @ show_bool parent_exists)))), s)
                  | WriteError msg \<Rightarrow> (Inr (Some (with_status c Cmd_FAILED (Some msg))), s)))
     | record_command \<Rightarrow>
         (Inr (Some c), s\<lparr>command_history := command_history s @ [c]\<rparr>))"

text \<open>
  \<^verbatim>\<open>ArtifactMiddleware.execute\<close>: the handlers run in sequence on the current command;
  a \<^verbatim>\<open>None\<close> stops the chain, a \<^verbatim>\<open>MiddlewareError\<close> leaves it.
\<close>

fun middleware_execute ::
  "'fs disk_ops \<Rightarrow> handler list \<Rightarrow> ArtifactCommand option \<Rightarrow> 'fs ArtifactCommandHandler
     \<Rightarrow> (MiddlewareError + ArtifactCommand option) \<times> 'fs ArtifactCommandHandler" where
  "middleware_execute ops [] cur s = (Inr cur, s)"
| "middleware_execute ops (h # hs) None s = (Inr None, s)"
| "middleware_execute ops (h # hs) (Some c) s =
     (case run_handler ops h c s of
        (Inl e, s') \<Rightarrow> (Inl e, s')
      | (Inr cur', s') \<Rightarrow> middleware_execute ops hs cur' s')"

definition default_handlers :: "handler list" where
  "default_handlers = [validate_command, prepare_directories, save_to_disk, record_command]"

definition setup_default_handlers :: "'fs ArtifactCommandHandler \<Rightarrow> 'fs ArtifactCommandHandler" where
  "setup_default_handlers s = s\<lparr>handlers := handlers s @ default_handlers\<rparr>"

definition ArtifactCommandHandler_init :: "string list \<Rightarrow> 'fs \<Rightarrow> 'fs ArtifactCommandHandler" where
  "ArtifactCommandHandler_init base d =
     setup_default_handlers \<lparr>base_dir = base, handlers = [], command_history = [], disk = d\<rparr>"

definition handler_execute ::
  "'fs disk_ops \<Rightarrow> ArtifactCommand \<Rightarrow> 'fs ArtifactCommandHandler
     \<Rightarrow> ArtifactCommand \<times> 'fs ArtifactCommandHandler" where
  "handler_execute ops c s =
     (case middleware_execute ops (handlers s) (Some c) s of
        (Inr None, s') \<Rightarrow> (with_status c Cmd_FAILED (Some ''Command execution terminated''), s')
      | (Inr (Some r), s') \<Rightarrow> (r, s')
      | (Inl e, s') \<Rightarrow> (with_status c Cmd_FAILED (Some (str_MiddlewareError e)), s'))"

definition get_task_artifacts :: "'fs ArtifactCommandHandler \<Rightarrow> string \<Rightarrow> ArtifactCommand list" where
  "get_task_artifacts s tid = filter (\<lambda>cmd. task_id cmd = tid) (command_history s)"

text \<open>
  \<^verbatim>\<open>src/core/artifact_manager.py\<close>. The manager owns one command handler; its
  constructor builds the handler (whose own constructor installs the default chain) and
  then calls \<^verbatim>\<open>setup_default_handlers\<close> on it once more. The fresh command id
  (\<^verbatim>\<open>uuid4\<close>) and the timestamp are arguments of the model.
\<close>

definition ArtifactManager_init :: "string list \<Rightarrow> 'fs \<Rightarrow> 'fs ArtifactCommandHandler" where
  "ArtifactManager_init base d = setup_default_handlers (ArtifactCommandHandler_init base d)"

definition get_content_type :: "artifact_content \<Rightarrow> string" where
  "get_content_type c = (case c of
       ContentJson _ \<Rightarrow> ''json''
     | ContentStr _ \<Rightarrow> ''text''
     | ContentBytes _ \<Rightarrow> ''binary''
     | ContentOther \<Rightarrow> ''unknown'')"

definition save_artifact ::
  "'fs disk_ops \<Rightarrow> nat \<Rightarrow> nat \<Rightarrow> string \<Rightarrow> string \<Rightarrow> artifact_content \<Rightarrow> string option
     \<Rightarrow> (string \<times> string) list option \<Rightarrow> 'fs ArtifactCommandHandler
     \<Rightarrow> (string + ArtifactCommand) \<times> 'fs ArtifactCommandHandler" where
  "save_artifact ops fresh_id now tid fname cont sub md s =
     (let command = \<lparr>operation = SAVE, task_id = tid, filename = fname, content = cont,
                      content_type = get_content_type cont, cmd_id = fresh_id, subdir = sub,
                      metadata = (case md of None \<Rightarrow> [] | Some m \<Rightarrow> m), timestamp = now,
                      status = Cmd_PENDING, error = None\<rparr>;
          (result, s') = handler_execute ops command s
      in if status result = Cmd_FAILED
         then (Inl (''Failed to save artifact: ''
                     @ (case error result of None \<Rightarrow> ''None'' | Some m \<Rightarrow> m)), s')
         else (Inr result, s'))"

text \<open>A disk on which every operation succeeds: the list of the paths written so far.\<close>

definition good_disk :: "(string list) list disk_ops" where
  "good_disk = \<lparr>mkdir = (\<lambda>p d. Inr (p # d)), write_file = (\<lambda>p c d. WriteOk (p # d))\<rparr>"

section \<open>Values, errors and step configuration\<close>

text \<open>
  Context values are opaque to the executor except for their truth value, for whether
  they are a mapping, and for the elements of a sequence. \<open>truthy\<close> is Python's truth
  value of them.
\<close>

datatype pyval =
    PNone
  | PBool bool
  | PInt int
  | PStr string
  | PList "pyval list"
  | PDict "(string \<times> pyval) list"

fun truthy :: "pyval \<Rightarrow> bool" where
  "truthy PNone = False"
| "truthy (PBool b) = b"
| "truthy (PInt i) = (i \<noteq> 0)"
| "truthy (PStr s) = (s \<noteq> [])"
| "truthy (PList xs) = (xs \<noteq> [])"
| "truthy (PDict d) = (d \<noteq> [])"

text \<open>
  The exceptions the executor raises and catches. The classes of
  \<^verbatim>\<open>src.core.errors\<close> are taken as separate subclasses of \<^verbatim>\<open>Exception\<close>, each caught by
  the \<^verbatim>\<open>except\<close> clause that names it; \<open>OtherException\<close> is any other exception.
  \<open>DAGExecutionError\<close> and \<open>PipelineExecutionError\<close> are the two classes of
  \<^verbatim>\<open>dag_executor.py\<close>; \<open>PipelineSuspendedException\<close> carries the checkpoint id, the
  suspended steps and the suspend info.
\<close>

datatype exn =
    PluginSuspendedException string pyval
  | PluginInputError string
  | RetryablePluginError string
  | PluginError string
  | DAGExecutionError string exn
  | PipelineSuspendedException string "string list" "pyval option"
  | PipelineExecutionError "exn option" "exn list"
  | ValueError string
  | RuntimeError string
  | OtherException string

fun is_pipeline_suspended :: "exn \<Rightarrow> bool" where
  "is_pipeline_suspended (PipelineSuspendedException cp ss info) = True"
| "is_pipeline_suspended _ = False"

datatype StepStatus = PENDING | RUNNING | COMPLETED | FAILED | SKIPPED | SUSPENDED

datatype dependency = Dep string | ConditionalDependency string pyval

datatype StepConfig =
  StepConfig
    (name: string)
    (plugin: string)
    (depends_on: "dependency list")
    (fail_on_error: bool)
    (is_finally: bool)
    (config: "(string \<times> pyval) list")
    (connections: "(string \<times> string) list option")
    (loop_config: "LoopConfig option")
and LoopConfig =
  LoopConfig
    (body: "StepConfig list")
    (collection: "string option")
    (count: "int option")
    (condition: "string option")
    (item_name: "string option")
    (index_name: "string option")
    (result_name: "string option")
    (delay: "nat option")
    (fail_fast: bool)
    (max_iterations: int)

section \<open>DAGState, SuspendContext and PipelineContext\<close>

text \<open>
  Modelled from the spec: \<^verbatim>\<open>src/core/dag_state.py\<close> (\<^verbatim>\<open>StepState\<close>, \<^verbatim>\<open>DAGState\<close>) is not
  among the sources. The spec (3, 4.2) gives a step state a status, an error and the saved
  artifacts, and the run state the step states keyed by step name, the derived sets of
  running, completed, failed, skipped and suspended steps, and the step numbers in
  declaration order. The clock readings are left out. The step states are an
  insertion-ordered dictionary, here an association list updated in place.
\<close>

record StepState =
  step_status :: StepStatus
  step_error :: "exn option"
  saved_artifacts :: "string list"

record DAGState =
  steps :: "StepConfig list"
  step_states :: "(string \<times> StepState) list"
  step_numbers :: "(string \<times> nat) list"
  execution_finished :: bool

definition StepState_init :: StepState where
  "StepState_init = \<lparr>step_status = PENDING, step_error = None, saved_artifacts = []\<rparr>"

definition DAGState_init :: "StepConfig list \<Rightarrow> DAGState" where
  "DAGState_init cfgs =
     \<lparr>steps = cfgs,
      step_states = fold (\<lambda>s d. AList.update (name s) StepState_init d) cfgs [],
      step_numbers = fold (\<lambda>s d. AList.update (name s) (Suc (length d)) d) cfgs [],
      execution_finished = False\<rparr>"

definition has_step :: "DAGState \<Rightarrow> string \<Rightarrow> bool" where
  "has_step st n = (map_of (step_states st) n \<noteq> None)"

definition status_of :: "DAGState \<Rightarrow> string \<Rightarrow> StepStatus option" where
  "status_of st n = map_option step_status (map_of (step_states st) n)"

definition steps_with_status :: "DAGState \<Rightarrow> StepStatus \<Rightarrow> string list" where
  "steps_with_status st s = map fst (filter (\<lambda>(n, ss). step_status ss = s) (step_states st))"

definition running_steps :: "DAGState \<Rightarrow> string list" where
  "running_steps st = steps_with_status st RUNNING"

definition completed_steps :: "DAGState \<Rightarrow> string list" where
  "completed_steps st = steps_with_status st COMPLETED"

definition failed_steps :: "DAGState \<Rightarrow> string list" where
  "failed_steps st = steps_with_status st FAILED"

definition skipped_steps :: "DAGState \<Rightarrow> string list" where
  "skipped_steps st = steps_with_status st SKIPPED"

definition suspended_steps_of :: "DAGState \<Rightarrow> string list" where
  "suspended_steps_of st = steps_with_status st SUSPENDED"

definition get_remaining_steps :: "DAGState \<Rightarrow> string list" where
  "get_remaining_steps st = steps_with_status st PENDING"

definition update_step :: "DAGState \<Rightarrow> string \<Rightarrow> (StepState \<Rightarrow> StepState) \<Rightarrow> DAGState" where
  "update_step st n f = (case map_of (step_states st) n of
       None \<Rightarrow> st
     | Some ss \<Rightarrow> st\<lparr>step_states := AList.update n (f ss) (step_states st)\<rparr>)"

definition mark_step_running :: "DAGState \<Rightarrow> string \<Rightarrow> DAGState" where
  "mark_step_running st n = update_step st n (\<lambda>ss. ss\<lparr>step_status := RUNNING\<rparr>)"

definition mark_step_completed :: "DAGState \<Rightarrow> string \<Rightarrow> string list \<Rightarrow> DAGState" where
  "mark_step_completed st n arts =
     update_step st n (\<lambda>ss. ss\<lparr>step_status := COMPLETED, saved_artifacts := arts\<rparr>)"

definition mark_step_failed :: "DAGState \<Rightarrow> string \<Rightarrow> exn \<Rightarrow> DAGState" where
  "mark_step_failed st n e =
     update_step st n (\<lambda>ss. ss\<lparr>step_status := FAILED, step_error := Some e\<rparr>)"

definition mark_step_skipped :: "DAGState \<Rightarrow> string \<Rightarrow> DAGState" where
  "mark_step_skipped st n = update_step st n (\<lambda>ss. ss\<lparr>step_status := SKIPPED\<rparr>)"

definition mark_step_suspended :: "DAGState \<Rightarrow> string \<Rightarrow> DAGState" where
  "mark_step_suspended st n = update_step st n (\<lambda>ss. ss\<lparr>step_status := SUSPENDED\<rparr>)"

definition mark_step_completed_from_suspension :: "DAGState \<Rightarrow> string \<Rightarrow> bool \<Rightarrow> DAGState" where
  "mark_step_completed_from_suspension st n clear_error =
     update_step st n (\<lambda>ss. ss\<lparr>step_status := COMPLETED,
                                 step_error := (if clear_error then None else step_error ss)\<rparr>)"

definition clear_step_error :: "DAGState \<Rightarrow> string \<Rightarrow> DAGState" where
  "clear_step_error st n = update_step st n (\<lambda>ss. ss\<lparr>step_error := None\<rparr>)"

definition mark_step_resumed :: "DAGState \<Rightarrow> string \<Rightarrow> DAGState" where
  "mark_step_resumed st n = update_step st n (\<lambda>ss. ss\<lparr>step_status := PENDING\<rparr>)"

definition finish_execution :: "DAGState \<Rightarrow> DAGState" where
  "finish_execution st = st\<lparr>execution_finished := True\<rparr>"

text \<open>
  Modelled from the spec: \<^verbatim>\<open>src/core/dag_validator.py\<close> is not among the sources. Its
  result is the normalised map from a step to its parsed dependencies
  \<open>{step_name, is_conditional, predicate}\<close> (spec 4.1).
\<close>

record ParsedDependency =
  step_name :: string
  is_conditional :: bool
  expected :: "pyval option"

definition parse_dependency :: "dependency \<Rightarrow> ParsedDependency" where
  "parse_dependency d = (case d of
       Dep n \<Rightarrow> \<lparr>step_name = n, is_conditional = False, expected = None\<rparr>
     | ConditionalDependency n v \<Rightarrow> \<lparr>step_name = n, is_conditional = True, expected = Some v\<rparr>)"

definition parsed_dependencies :: "StepConfig list \<Rightarrow> string \<Rightarrow> ParsedDependency list" where
  "parsed_dependencies cfgs n =
     (case map_of (map (\<lambda>s. (name s, map parse_dependency (depends_on s))) (rev cfgs)) n of
        None \<Rightarrow> [] | Some ds \<Rightarrow> ds)"

text \<open>
  Modelled from the spec (4.2): a step is ready iff it is PENDING, every non-conditional
  dependency is COMPLETED, and every conditional dependency is COMPLETED with its
  predicate satisfied in the context view. How the predicate reads the context is not
  specified; it is the parameter \<open>holds\<close>. A finally step is ready when it is PENDING,
  all non-finally steps have reached a terminal state, and its dependencies among the
  finally steps are COMPLETED.
\<close>

definition is_step_ready ::
  "(ParsedDependency \<Rightarrow> (string \<rightharpoonup> pyval) \<Rightarrow> bool) \<Rightarrow> DAGState \<Rightarrow> string
     \<Rightarrow> (string \<Rightarrow> ParsedDependency list) \<Rightarrow> (string \<rightharpoonup> pyval) \<Rightarrow> bool" where
  "is_step_ready holds st n pdeps view =
     (status_of st n = Some PENDING
      \<and> list_all (\<lambda>d. status_of st (step_name d) = Some COMPLETED
                        \<and> (is_conditional d \<longrightarrow> holds d view)) (pdeps n))"

definition terminal_status :: "StepStatus \<Rightarrow> bool" where
  "terminal_status s = (s = COMPLETED \<or> s = FAILED \<or> s = SKIPPED \<or> s = SUSPENDED)"

definition is_step_ready_for_finally ::
  "DAGState \<Rightarrow> string \<Rightarrow> (string \<Rightarrow> ParsedDependency list) \<Rightarrow> bool" where
  "is_step_ready_for_finally st n pdeps =
     (status_of st n = Some PENDING
      \<and> list_all (\<lambda>s. is_finally s
                        \<or> (case status_of st (name s) of None \<Rightarrow> False | Some x \<Rightarrow> terminal_status x))
                  (steps st)
      \<and> list_all (\<lambda>d. step_name d \<in> set (map name (filter is_finally (steps st)))
                        \<longrightarrow> status_of st (step_name d) = Some COMPLETED) (pdeps n))"

text \<open>
  Modelled from the spec: \<^verbatim>\<open>src/core/suspend_context.py\<close> is not among the sources. The
  run's SuspendContext records the suspended steps with the reason and the data of each
  suspension (spec 4.7.1).
\<close>

record SuspendContext =
  suspended_steps :: "string list"
  suspend_reasons :: "(string \<times> string) list"
  suspend_data :: "(string \<times> pyval) list"

definition SuspendContext_init :: SuspendContext where
  "SuspendContext_init = \<lparr>suspended_steps = [], suspend_reasons = [], suspend_data = []\<rparr>"

definition request_suspend :: "SuspendContext \<Rightarrow> string \<Rightarrow> string \<Rightarrow> pyval \<Rightarrow> SuspendContext" where
  "request_suspend sc n reason dat =
     \<lparr>suspended_steps = (if n \<in> set (suspended_steps sc) then suspended_steps sc
                          else suspended_steps sc @ [n]),
      suspend_reasons = AList.update n reason (suspend_reasons sc),
      suspend_data = AList.update n dat (suspend_data sc)\<rparr>"

text \<open>
  Modelled from the spec: \<^verbatim>\<open>src/core/context.py\<close> (\<^verbatim>\<open>PipelineContext\<close>) is not among the
  sources. The context is a mapping from string keys to values with the run's task id, an
  optional pipeline id, the list of saved artifacts and the loop-scope record (spec 3).
  \<^verbatim>\<open>copy\<close> is a copy of the record, \<^verbatim>\<open>update\<close> adds the entries of another mapping.
\<close>

record PipelineContext =
  ctx_data :: "string \<rightharpoonup> pyval"
  ctx_task_id :: string
  ctx_pipeline_id :: "string option"
  ctx_saved_artifacts :: "string list"
  loop_step_name :: "string option"
  loop_iteration_index :: "nat option"

definition ctx_get :: "PipelineContext \<Rightarrow> string \<Rightarrow> pyval \<Rightarrow> pyval" where
  "ctx_get c k dflt = (case ctx_data c k of None \<Rightarrow> dflt | Some v \<Rightarrow> v)"

definition ctx_set :: "PipelineContext \<Rightarrow> string \<Rightarrow> pyval \<Rightarrow> PipelineContext" where
  "ctx_set c k v = c\<lparr>ctx_data := (ctx_data c)(k \<mapsto> v)\<rparr>"

definition ctx_update :: "PipelineContext \<Rightarrow> (string \<rightharpoonup> pyval) \<Rightarrow> PipelineContext" where
  "ctx_update c m = c\<lparr>ctx_data := ctx_data c ++ m\<rparr>"

definition clear_saved_artifacts :: "PipelineContext \<Rightarrow> PipelineContext" where
  "clear_saved_artifacts c = c\<lparr>ctx_saved_artifacts := []\<rparr>"

definition set_loop_context :: "PipelineContext \<Rightarrow> string \<Rightarrow> nat \<Rightarrow> PipelineContext" where
  "set_loop_context c n i = c\<lparr>loop_step_name := Some n, loop_iteration_index := Some i\<rparr>"

section \<open>The executor: one step with retries\<close>

text \<open>
  \<^verbatim>\<open>src/core/dag_executor.py\<close>. What the executor does to the outside is kept as a log of
  events: the progress reports, the sleeps, the permits of the semaphore taken and given
  back, the plugin invocations, the checkpoints created and the warnings logged.
\<close>

datatype event =
    Progress string StepStatus "exn option"
  | Sleep real
  | SemaphoreAcquired string
  | SemaphoreReleased string
  | PluginInvoked string nat
  | CheckpointCreated string "string option" DAGState PipelineContext
      "string list" "(string \<times> pyval) list" "(string \<times> string) list"
  | PhaseStarted string
  | LoopIteration string nat pyval
  | ConditionEvaluated string nat pyval
  | Warning string

text \<open>
  The collaborators of the executor that are not among the sources
  (\<^verbatim>\<open>PluginInputResolver\<close>, \<^verbatim>\<open>PluginInvoker\<close>, \<^verbatim>\<open>PluginOutputHandler\<close>,
  \<^verbatim>\<open>TemplateProcessor\<close>, the step registry's plugins, the checkpoint manager) and the
  event loop's choice of the tasks that complete are parameters, collected in a record.
  A plugin call is keyed by the step name and the attempt number; it may change the
  context and raises or returns. \<open>run_loop_body\<close> is the run of a loop body on an
  iteration context by the fresh executor of \<^verbatim>\<open>_run_loop_body\<close>: it returns, or raises
  the exception given, and leaves the iteration context as returned. \<open>str_of\<close> is
  Python's \<^verbatim>\<open>str\<close> of a value. \<open>validate_steps\<close> and \<open>resolve_connections\<close> are the
  failures of \<^verbatim>\<open>DAGValidator.validate_steps\<close> and of the connection resolver, if any.
  \<open>first_completed\<close> names, among the tasks in flight, those that \<^verbatim>\<open>asyncio.wait\<close>
  returns as done.
\<close>

record world =
  resolve_inputs :: "string \<Rightarrow> nat \<Rightarrow> PipelineContext \<Rightarrow> (exn + pyval option) \<times> PipelineContext"
  has_InputModel :: "string \<Rightarrow> bool"
  allow_empty_input :: "string \<Rightarrow> bool"
  invoke :: "string \<Rightarrow> nat \<Rightarrow> pyval option \<Rightarrow> PipelineContext \<Rightarrow> (exn + pyval option) \<times> PipelineContext"
  handle_output :: "string \<Rightarrow> pyval option \<Rightarrow> PipelineContext \<Rightarrow> exn option \<times> PipelineContext"
  get_plugin :: "StepConfig \<Rightarrow> PipelineContext \<Rightarrow> exn option"
  holds :: "ParsedDependency \<Rightarrow> (string \<rightharpoonup> pyval) \<Rightarrow> bool"
  first_completed :: "string list \<Rightarrow> string list"
  create_checkpoint :: "DAGState \<Rightarrow> PipelineContext \<Rightarrow> exn + string"
  run_loop_body :: "StepConfig list \<Rightarrow> PipelineContext \<Rightarrow> exn option \<times> PipelineContext"
  str_of :: "pyval \<Rightarrow> string"
  validate_steps :: "StepConfig list \<Rightarrow> exn option"
  resolve_connections :: "StepConfig list \<Rightarrow> exn option"

record DAGExecutor =
  max_workers :: nat
  checkpoint_manager :: bool
  state :: DAGState
  suspend_context :: "SuspendContext option"
  current_context :: PipelineContext
  events :: "event list"



definition RETRY_DELAY :: real where
  "RETRY_DELAY = 1"

definition report_progress :: "string \<Rightarrow> StepStatus \<Rightarrow> exn option \<Rightarrow> DAGExecutor \<Rightarrow> DAGExecutor" where
  "report_progress n s e ex = ex\<lparr>events := events ex @ [Progress n s e]\<rparr>"

definition emit :: "event \<Rightarrow> DAGExecutor \<Rightarrow> DAGExecutor" where
  "emit ev ex = ex\<lparr>events := events ex @ [ev]\<rparr>"

text \<open>
  The \<^verbatim>\<open>try\<close> block of \<^verbatim>\<open>_run_with_retries\<close> (lines 470 to 611). The preparation of
  the plugin's view of the context (clearing the saved artifacts, the connections, the
  child context) and the input resolution are the parameter \<open>resolve_inputs\<close>. The
  result is the exception raised, with the local \<^verbatim>\<open>saved_artifacts\<close> at that point, or
  the returned pair.
\<close>

definition try_plugin ::
  "world \<Rightarrow> StepConfig \<Rightarrow> nat \<Rightarrow> DAGExecutor
     \<Rightarrow> ((exn \<times> string list) + (pyval option \<times> string list)) \<times> DAGExecutor" where
  "try_plugin w step attempt ex =
     (let (r0, c1) = resolve_inputs w (name step) attempt (clear_saved_artifacts (current_context ex));
          ex1 = ex\<lparr>current_context := c1\<rparr>
      in case r0 of
           Inl e \<Rightarrow> (Inl (e, []), ex1)
         | Inr payload \<Rightarrow>
             if has_InputModel w (name step) \<and> payload = None \<and> \<not> allow_empty_input w (name step)
             then (Inl (PluginInputError ''Input validation failed'', []), ex1)
             else
               (let ex2 = report_progress (name step) RUNNING None
                            (emit (SemaphoreAcquired (name step)) ex1);
                    ex3 = emit (PluginInvoked (name step) attempt) ex2;
                    (r1, c2) = invoke w (name step) attempt payload (current_context ex3);
                    ex4 = emit (SemaphoreReleased (name step)) (ex3\<lparr>current_context := c2\<rparr>)
                in case r1 of
                     Inl e \<Rightarrow> (Inl (e, []), ex4)
                   | Inr out \<Rightarrow>
                       (let saved = ctx_saved_artifacts c2;
                            (r2, c3) = handle_output w (name step) out c2;
                            ex5 = ex4\<lparr>current_context := c3\<rparr>
                        in case r2 of
                             Some e \<Rightarrow> (Inl (e, saved), ex5)
                           | None \<Rightarrow> (Inr (out, saved @ ctx_saved_artifacts c3), ex5))))"

definition fail_step ::
  "StepConfig \<Rightarrow> exn \<Rightarrow> exn \<Rightarrow> string list \<Rightarrow> DAGExecutor
     \<Rightarrow> (exn + (pyval option \<times> string list)) \<times> DAGExecutor" where
  "fail_step step e raised saved ex =
     (let ex1 = report_progress (name step) FAILED (Some e)
                  (ex\<lparr>state := mark_step_failed (state ex) (name step) e\<rparr>)
      in if fail_on_error step then (Inl raised, ex1) else (Inr (None, saved), ex1))"

text \<open>
  \<^verbatim>\<open>_run_with_retries\<close>: the \<^verbatim>\<open>except\<close> clauses in the order of the source. A
  retryable error with \<^verbatim>\<open>attempt < max_retries - 1\<close> sleeps
  \<^verbatim>\<open>RETRY_DELAY * (attempt + 1)\<close> and runs the step again with \<^verbatim>\<open>attempt + 1\<close>.
\<close>

function run_with_retries ::
  "world \<Rightarrow> StepConfig \<Rightarrow> nat \<Rightarrow> int \<Rightarrow> DAGExecutor
     \<Rightarrow> (exn + (pyval option \<times> string list)) \<times> DAGExecutor" where
  "run_with_retries w step attempt max_retries ex =
     (case try_plugin w step attempt ex of
        (Inr res, ex1) \<Rightarrow> (Inr res, ex1)
      | (Inl (e, saved), ex1) \<Rightarrow>
          (case e of
             PluginSuspendedException msg info \<Rightarrow>
               (let ex2 = report_progress (name step) SUSPENDED (Some e)
                            (ex1\<lparr>state := mark_step_suspended (state ex1) (name step)\<rparr>);
                    sc = (case suspend_context ex2 of None \<Rightarrow> SuspendContext_init | Some sc \<Rightarrow> sc)
                in (Inl e, ex2\<lparr>suspend_context := Some (request_suspend sc (name step) msg info)\<rparr>))
           | PluginInputError m \<Rightarrow> fail_step step e e saved ex1
           | RetryablePluginError m \<Rightarrow>
               if int attempt < max_retries - 1
               then run_with_retries w step (attempt + 1) max_retries
                      (emit (Sleep (RETRY_DELAY * real (attempt + 1))) ex1)
               else fail_step step e e saved ex1
           | PluginError m \<Rightarrow> fail_step step e e saved ex1
           | _ \<Rightarrow> fail_step step e (DAGExecutionError (name step) e) saved ex1))"
  by pat_completeness auto
termination
  by (relation "measure (\<lambda>(w, step, attempt, max_retries, ex). nat (max_retries - 1 - int attempt))") auto

declare run_with_retries.simps [simp del]

text \<open>
  The attempts and the sleeps among the events, and the sequence of them that a step
  failing with a retryable error on every attempt from \<open>a\<close> on is expected to leave:
  attempt \<open>k\<close> (counted from 0) is followed by a sleep of \<open>RETRY_DELAY * (k + 1)\<close> seconds
  unless it is the last one.
\<close>

fun is_retry_event :: "event \<Rightarrow> bool" where
  "is_retry_event (PluginInvoked n k) = True"
| "is_retry_event (Sleep d) = True"
| "is_retry_event _ = False"

definition retry_trace :: "string \<Rightarrow> nat \<Rightarrow> int \<Rightarrow> event list" where
  "retry_trace n a max_retries =
     concat (map (\<lambda>k. PluginInvoked n k
                        # (if int k < max_retries - 1 then [Sleep (RETRY_DELAY * real (k + 1))] else []))
                 [a..<nat max_retries])"

text \<open>A plugin world in which every call of every plugin raises a retryable error.\<close>

definition flaky_world :: world where
  "flaky_world =
     \<lparr>resolve_inputs = (\<lambda>n k c. (Inr (Some PNone), c)),
      has_InputModel = (\<lambda>n. False),
      allow_empty_input = (\<lambda>n. False),
      invoke = (\<lambda>n k p c. (Inl (RetryablePluginError ''timeout''), c)),
      handle_output = (\<lambda>n out c. (None, c)),
      get_plugin = (\<lambda>s c. None),
      holds = (\<lambda>d v. True),
      first_completed = (\<lambda>ns. ns),
      create_checkpoint = (\<lambda>st c. Inr ''cp''),
      run_loop_body = (\<lambda>b c. (None, c)),
      str_of = (\<lambda>v. ''v''),
      validate_steps = (\<lambda>cfgs. None),
      resolve_connections = (\<lambda>cfgs. None)\<rparr>"

definition empty_context :: PipelineContext where
  "empty_context =
     \<lparr>ctx_data = Map.empty, ctx_task_id = ''task'', ctx_pipeline_id = None,
      ctx_saved_artifacts = [], loop_step_name = None, loop_iteration_index = None\<rparr>"

definition plain_step :: "string \<Rightarrow> dependency list \<Rightarrow> bool \<Rightarrow> bool \<Rightarrow> StepConfig" where
  "plain_step n deps critical fin = StepConfig n ''plugin'' deps critical fin [] None None"

definition new_executor :: "nat \<Rightarrow> bool \<Rightarrow> StepConfig list \<Rightarrow> DAGExecutor" where
  "new_executor workers cm cfgs =
     \<lparr>max_workers = workers, checkpoint_manager = cm, state = DAGState_init cfgs,
      suspend_context = None, current_context = empty_context, events = []\<rparr>"

section \<open>Loop execution\<close>

text \<open>
  \<^verbatim>\<open>src/core/loop_execution_strategy.py\<close>. \<^verbatim>\<open>_create_synthetic_body\<close>: the declared
  body, or one step named after the loop step that mirrors its plugin and configuration.
\<close>

definition create_synthetic_body :: "StepConfig \<Rightarrow> StepConfig list" where
  "create_synthetic_body step =
     (if plugin step = ''pipeline_loop''
         \<or> (case loop_config step of None \<Rightarrow> False | Some lc \<Rightarrow> body lc \<noteq> [])
      then (case loop_config step of None \<Rightarrow> [] | Some lc \<Rightarrow> body lc)
      else [StepConfig (name step @ ''_iteration'') (plugin step) [] (fail_on_error step)
              False (config step) None None])"

definition delay_set :: "LoopConfig \<Rightarrow> bool" where
  "delay_set lc = (case delay lc of None \<Rightarrow> False | Some d \<Rightarrow> d \<noteq> 0)"

definition delay_seconds :: "LoopConfig \<Rightarrow> real" where
  "delay_seconds lc = real (case delay lc of None \<Rightarrow> 0 | Some d \<Rightarrow> d) / 1000"

text \<open>
  The context of one iteration: a copy of the loop context with the item and the index
  bound under \<^verbatim>\<open>item_name\<close> and \<^verbatim>\<open>index_name\<close> when these are set, and the loop scope
  recorded.
\<close>

definition iteration_context :: "LoopConfig \<Rightarrow> string \<Rightarrow> PipelineContext \<Rightarrow> pyval \<Rightarrow> nat \<Rightarrow> PipelineContext" where
  "iteration_context lc n lctx item i =
     (let ic = lctx;
          ic = (if truthy_opt_str (item_name lc) then ctx_set ic (the (item_name lc)) item else ic);
          ic = (if truthy_opt_str (index_name lc) then ctx_set ic (the (index_name lc)) (PInt (int i)) else ic)
      in set_loop_context ic n i)"

text \<open>
  What \<^verbatim>\<open>len\<close> and \<^verbatim>\<open>enumerate\<close> make of the value found under the collection key: the
  elements of a list, the characters of a string, the keys of a mapping; other values have
  no length, and the log line that prints \<^verbatim>\<open>len(items)\<close> raises.
\<close>

definition items_of :: "pyval \<Rightarrow> exn + pyval list" where
  "items_of v = (case v of
       PList xs \<Rightarrow> Inr xs
     | PStr s \<Rightarrow> Inr (map (\<lambda>ch. PStr [ch]) s)
     | PDict d \<Rightarrow> Inr (map (\<lambda>(k, x). PStr k) d)
     | _ \<Rightarrow> Inl (OtherException ''TypeError''))"

text \<open>
  The \<^verbatim>\<open>for\<close> loop of \<^verbatim>\<open>_execute_collection_or_count_loop\<close> over the enumerated items
  that are left; \<open>n_items\<close> is \<^verbatim>\<open>len(items)\<close>, \<open>start\<close> is \<^verbatim>\<open>start_index\<close>. The result is
  the exception that left the loop or \<^verbatim>\<open>any_iteration_failed\<close>, with the loop context and
  the events.
\<close>

fun iterate_items ::
  "world \<Rightarrow> StepConfig \<Rightarrow> LoopConfig \<Rightarrow> StepConfig list \<Rightarrow> nat \<Rightarrow> nat \<Rightarrow> (nat \<times> pyval) list
     \<Rightarrow> bool \<Rightarrow> PipelineContext \<Rightarrow> event list \<Rightarrow> (exn + bool) \<times> PipelineContext \<times> event list" where
  "iterate_items w step lc bd n_items start [] failed lctx evs = (Inr failed, lctx, evs)"
| "iterate_items w step lc bd n_items start ((i, item) # rest) failed lctx evs =
     (if i < start then iterate_items w step lc bd n_items start rest failed lctx evs
      else
        (let evs1 = evs @ [LoopIteration (name step) i item];
             evs2 = (if delay_set lc \<and> int i < int n_items - 1
                     then evs1 @ [Sleep (delay_seconds lc)] else evs1)
         in case run_loop_body w bd (iteration_context lc (name step) lctx item i) of
              (None, ic) \<Rightarrow>
                iterate_items w step lc bd n_items start rest failed
                  (ctx_update lctx (ctx_data ic)) evs2
            | (Some e, ic) \<Rightarrow>
                if is_pipeline_suspended e then (Inl e, ctx_update lctx (ctx_data ic), evs1)
                else if fail_fast lc then (Inl e, lctx, evs1)
                else iterate_items w step lc bd n_items start rest True lctx evs2))"

definition result_name_warning :: "LoopConfig \<Rightarrow> PipelineContext \<Rightarrow> event list" where
  "result_name_warning lc lctx =
     (if truthy_opt_str (result_name lc) \<and> ctx_data lctx (the (result_name lc)) = None
      then [Warning ''result_name not found in the final loop context''] else [])"

definition execute_collection_or_count_loop ::
  "world \<Rightarrow> PipelineContext \<Rightarrow> StepConfig \<Rightarrow> PipelineContext \<Rightarrow> LoopConfig \<Rightarrow> event list
     \<Rightarrow> (exn + bool) \<times> PipelineContext \<times> event list" where
  "execute_collection_or_count_loop w parent_context step lctx lc evs =
     (case (if truthy_opt_str (collection lc)
            then items_of (ctx_get parent_context (the (collection lc)) (PList []))
            else Inr [])
      of Inl e \<Rightarrow> (Inl e, lctx, evs)
       | Inr items0 \<Rightarrow>
          (let items = (if items0 = [] \<and> count lc \<noteq> None
                        then map (\<lambda>k. PInt (int k)) [0..<nat (the (count lc))] else items0)
           in if items = [] then (Inr False, lctx, evs @ [Warning ''No items to iterate over''])
              else
                (let effective_body = create_synthetic_body step
                 in if effective_body = []
                    then (Inr False, lctx, evs @ [Warning ''no executable body''])
                    else
                      (let processed_items =
                             (if loop_iteration_index lctx \<noteq> None
                              then filter (\<lambda>idx. truthy (ctx_get lctx
                                              (''item_'' @ str_of w (items ! idx) @ ''_processed'')
                                              (PBool False)))
                                     [0..<length items]
                              else []);
                           start_index = (if processed_items \<noteq> [] then length processed_items else 0)
                       in case iterate_items w step lc effective_body (length items) start_index
                                 (zip [0..<length items] items) False lctx evs of
                            (Inl e, lctx', evs') \<Rightarrow> (Inl e, lctx', evs')
                          | (Inr failed, lctx', evs') \<Rightarrow>
                              (Inr failed, lctx', evs' @ result_name_warning lc lctx')))))"

text \<open>
  The \<^verbatim>\<open>while\<close> loop of \<^verbatim>\<open>_execute_condition_based_loop\<close>, from its loop counter on.
  The result carries the counter at which the loop was left.
\<close>

definition condition_delay :: "LoopConfig \<Rightarrow> nat \<Rightarrow> PipelineContext \<Rightarrow> event list" where
  "condition_delay lc loop_counter lctx =
     (if delay_set lc \<and> int loop_counter < max_iterations lc
         \<and> truthy (ctx_get lctx (the (condition lc)) PNone)
      then [Sleep (delay_seconds lc)] else [])"

function condition_iterate ::
  "world \<Rightarrow> StepConfig \<Rightarrow> LoopConfig \<Rightarrow> StepConfig list \<Rightarrow> nat \<Rightarrow> bool \<Rightarrow> PipelineContext
     \<Rightarrow> event list \<Rightarrow> (exn + bool \<times> nat) \<times> PipelineContext \<times> event list" where
  "condition_iterate w step lc bd loop_counter failed lctx evs =
     (if int loop_counter < max_iterations lc then
        (if \<not> truthy_opt_str (condition lc)
         then (Inl (ValueError ''No condition specified for condition-based loop''), lctx, evs)
         else
           (let condition_value = ctx_get lctx (the (condition lc)) PNone;
                evs0 = evs @ [ConditionEvaluated (name step) loop_counter condition_value]
            in if \<not> truthy condition_value then (Inr (failed, loop_counter), lctx, evs0)
               else
                 (let evs1 = evs0 @ [LoopIteration (name step) loop_counter (PInt (int loop_counter))]
                  in case run_loop_body w bd
                            (iteration_context lc (name step) lctx (PInt (int loop_counter)) loop_counter) of
                       (None, ic) \<Rightarrow>
                         condition_iterate w step lc bd (Suc loop_counter) failed
                           (ctx_update lctx (ctx_data ic))
                           (evs1 @ condition_delay lc (Suc loop_counter) (ctx_update lctx (ctx_data ic)))
                     | (Some e, ic) \<Rightarrow>
                         if is_pipeline_suspended e then (Inl e, lctx, evs1)
                         else if fail_fast lc then (Inl e, ctx_update lctx (ctx_data ic), evs1)
                         else condition_iterate w step lc bd (Suc loop_counter) True
                                (ctx_update lctx (ctx_data ic))
                                (evs1 @ condition_delay lc (Suc loop_counter)
                                          (ctx_update lctx (ctx_data ic))))))
      else (Inr (failed, loop_counter), lctx, evs))"
  by pat_completeness auto
termination
  by (relation "measure (\<lambda>(w, step, lc, bd, loop_counter, failed, lctx, evs).
                           nat (max_iterations lc - int loop_counter))") auto

declare condition_iterate.simps [simp del]

definition execute_condition_based_loop ::
  "world \<Rightarrow> PipelineContext \<Rightarrow> StepConfig \<Rightarrow> PipelineContext \<Rightarrow> LoopConfig \<Rightarrow> event list
     \<Rightarrow> (exn + bool) \<times> PipelineContext \<times> event list" where
  "execute_condition_based_loop w parent_context step lctx lc evs =
     (let effective_body = create_synthetic_body step
      in if effective_body = [] then (Inr False, lctx, evs @ [Warning ''no executable body''])
         else
           (case condition_iterate w step lc effective_body 0 False lctx evs of
              (Inl e, lctx', evs') \<Rightarrow> (Inl e, lctx', evs')
            | (Inr (failed, loop_counter), lctx', evs') \<Rightarrow>
                (Inr failed, lctx',
                 evs' @ (if max_iterations lc \<le> int loop_counter
                         then [Warning ''reached max iterations''] else [])
                      @ result_name_warning lc lctx')))"

text \<open>
  \<^verbatim>\<open>execute_loop\<close>: the loop context is a copy of the parent context with the saved
  artifacts cleared; its final data are merged into the parent context when the loop
  returns and when it is suspended. The result is the exception raised, if any, with the
  parent context and the events.
\<close>

definition execute_loop ::
  "world \<Rightarrow> PipelineContext \<Rightarrow> StepConfig \<Rightarrow> event list
     \<Rightarrow> exn option \<times> PipelineContext \<times> event list" where
  "execute_loop w parent_context step evs =
     (case loop_config step of
        None \<Rightarrow> (Some (ValueError ''Loop step is missing loop configuration''), parent_context, evs)
      | Some lc \<Rightarrow>
          (let loop_context = clear_saved_artifacts parent_context
           in case (if truthy_opt_str (condition lc)
                    then execute_condition_based_loop w parent_context step loop_context lc evs
                    else execute_collection_or_count_loop w parent_context step loop_context lc evs) of
                (Inr any_iteration_failed, lctx', evs') \<Rightarrow>
                  (if any_iteration_failed
                   then Some (OtherException ''One or more iterations failed in loop step'')
                   else None,
                   ctx_update parent_context (ctx_data lctx'), evs')
              | (Inl e, lctx', evs') \<Rightarrow>
                  (Some e,
                   if is_pipeline_suspended e then ctx_update parent_context (ctx_data lctx')
                   else parent_context,
                   evs')))"

fun is_loop_iteration :: "event \<Rightarrow> bool" where
  "is_loop_iteration (LoopIteration n i item) = True"
| "is_loop_iteration _ = False"

section \<open>The executor: tasks\<close>

text \<open>
  \<^verbatim>\<open>_execute_loop\<close>: a loop step is delegated to the loop strategy; when the loop returns,
  the task returns no output and no artifacts.
\<close>

definition execute_loop_task ::
  "world \<Rightarrow> StepConfig \<Rightarrow> DAGExecutor \<Rightarrow> (exn + (pyval option \<times> string list)) \<times> DAGExecutor" where
  "execute_loop_task w step ex =
     (case execute_loop w (current_context ex) step (events ex) of
        (None, c, evs) \<Rightarrow> (Inr (None, []), ex\<lparr>current_context := c, events := evs\<rparr>)
      | (Some e, c, evs) \<Rightarrow> (Inl e, ex\<lparr>current_context := c, events := evs\<rparr>))"

text \<open>
  The tasks in flight are the dictionary \<^verbatim>\<open>tasks\<close> from step names to tasks. The event
  loop is sequentialised: the coroutine of a task (\<^verbatim>\<open>_execute_loop\<close> for a loop step,
  \<^verbatim>\<open>_run_with_retries\<close> with the default \<^verbatim>\<open>attempt=0, max_retries=3\<close> otherwise) runs when
  the task is taken as completed.
\<close>

type_synonym tasks = "(string \<times> StepConfig) list"

definition run_task ::
  "world \<Rightarrow> StepConfig \<Rightarrow> DAGExecutor \<Rightarrow> (exn + (pyval option \<times> string list)) \<times> DAGExecutor" where
  "run_task w step ex =
     (if loop_config step \<noteq> None then execute_loop_task w step ex
      else run_with_retries w step 0 3 ex)"

text \<open>
  \<^verbatim>\<open>_create_step_task\<close>: the task is created (for a regular step after the templates of
  its configuration are processed and its plugin is fetched, which is the parameter
  \<open>get_plugin\<close>) and the step is marked RUNNING at once; a failure to create it marks
  the step FAILED and raises for a step with \<^verbatim>\<open>fail_on_error\<close>.
\<close>

definition create_step_task ::
  "world \<Rightarrow> StepConfig \<Rightarrow> DAGExecutor \<Rightarrow> (exn + StepConfig option) \<times> DAGExecutor" where
  "create_step_task w step ex =
     (case (if loop_config step \<noteq> None then None else get_plugin w step (current_context ex)) of
        None \<Rightarrow> (Inr (Some step), ex\<lparr>state := mark_step_running (state ex) (name step)\<rparr>)
      | Some init_error \<Rightarrow>
          (let ex1 = report_progress (name step) FAILED (Some init_error)
                       (ex\<lparr>state := mark_step_failed (state ex) (name step) init_error\<rparr>)
           in if fail_on_error step then (Inl (DAGExecutionError (name step) init_error), ex1)
              else (Inr None, ex1)))"

text \<open>
  \<^verbatim>\<open>_process_completed_task\<close>: the result of the task is awaited and the step is marked;
  the task is deleted from \<^verbatim>\<open>tasks\<close> in every case. Membership of a step in
  \<^verbatim>\<open>failed_steps\<close> is the test that its status is FAILED.
\<close>

definition fail_processed :: "string \<Rightarrow> exn \<Rightarrow> DAGExecutor \<Rightarrow> DAGExecutor" where
  "fail_processed n e ex =
     (if has_step (state ex) n
      then report_progress n FAILED (Some e) (ex\<lparr>state := mark_step_failed (state ex) n e\<rparr>)
      else ex)"

definition process_completed_task ::
  "world \<Rightarrow> string \<times> StepConfig \<Rightarrow> StepConfig list \<Rightarrow> tasks \<Rightarrow> DAGExecutor
     \<Rightarrow> exn option \<times> tasks \<times> DAGExecutor" where
  "process_completed_task w task step_configs tasks ex =
     (let n = fst task
      in case run_task w (snd task) ex of
           (Inr (result, saved), ex1) \<Rightarrow>
             (None, AList.delete n tasks,
              if has_step (state ex1) n \<and> status_of (state ex1) n \<noteq> Some FAILED
              then report_progress n COMPLETED None
                     (ex1\<lparr>state := mark_step_completed (state ex1) n saved\<rparr>)
              else ex1)
         | (Inl (PluginSuspendedException msg info), ex1) \<Rightarrow> (None, AList.delete n tasks, ex1)
         | (Inl (PipelineSuspendedException cp ss info), ex1) \<Rightarrow>
             (Some (PipelineSuspendedException cp ss info), AList.delete n tasks, ex1)
         | (Inl (DAGExecutionError sn err), ex1) \<Rightarrow>
             (Some (DAGExecutionError sn err), AList.delete n tasks, fail_processed n err ex1)
         | (Inl e, ex1) \<Rightarrow>
             (if has_step (state ex1) n
                 \<and> (case find (\<lambda>s. name s = n) step_configs of
                       None \<Rightarrow> False | Some s \<Rightarrow> fail_on_error s)
              then Some (DAGExecutionError n e) else None,
              AList.delete n tasks, fail_processed n e ex1))"

text \<open>
  The condition-driven loop in the words of the spec (4.6), for comparison with
  \<open>condition_iterate\<close>: while \<^verbatim>\<open>context[condition]\<close> is truthy, up to
  \<^verbatim>\<open>max_iterations\<close>, the condition being evaluated against the loop context after each
  iteration has merged its results back. \<open>run k c\<close> is the data that iteration \<open>k\<close>, started
  from the loop context \<open>c\<close>, leaves in its iteration context.
\<close>

function spec_condition_loop ::
  "string \<Rightarrow> int \<Rightarrow> (nat \<Rightarrow> PipelineContext \<Rightarrow> (string \<rightharpoonup> pyval)) \<Rightarrow> nat \<Rightarrow> PipelineContext
     \<Rightarrow> nat \<times> PipelineContext" where
  "spec_condition_loop cond max_it run k lctx =
     (if int k < max_it \<and> truthy (ctx_get lctx cond PNone)
      then spec_condition_loop cond max_it run (Suc k) (ctx_update lctx (run k lctx))
      else (k, lctx))"
  by pat_completeness auto
termination
  by (relation "measure (\<lambda>(cond, max_it, run, k, lctx). nat (max_it - int k))") auto

declare spec_condition_loop.simps [simp del]

definition body_data :: "world \<Rightarrow> StepConfig \<Rightarrow> LoopConfig \<Rightarrow> nat \<Rightarrow> PipelineContext \<Rightarrow> (string \<rightharpoonup> pyval)" where
  "body_data w step lc k lctx =
     ctx_data (snd (run_loop_body w (create_synthetic_body step)
                      (iteration_context lc (name step) lctx (PInt (int k)) k)))"

text \<open>
  A world whose loop bodies count down: each run of a body decrements the integer under
  the key \<^verbatim>\<open>n\<close> and sets \<^verbatim>\<open>go\<close> to whether it is still positive.
\<close>

definition countdown_body :: "PipelineContext \<Rightarrow> exn option \<times> PipelineContext" where
  "countdown_body c =
     (case ctx_data c ''n'' of
        Some (PInt i) \<Rightarrow> (None, ctx_set (ctx_set c ''n'' (PInt (i - 1))) ''go'' (PBool (1 < i)))
      | _ \<Rightarrow> (None, c))"

definition countdown_world :: world where
  "countdown_world = flaky_world\<lparr>run_loop_body := (\<lambda>b c. countdown_body c)\<rparr>"

definition loop_step :: "string \<Rightarrow> LoopConfig \<Rightarrow> StepConfig" where
  "loop_step n lc = StepConfig n ''plugin'' [] True False [] None (Some lc)"

definition condition_loop_config :: "string \<Rightarrow> int \<Rightarrow> LoopConfig" where
  "condition_loop_config c m = LoopConfig [] None None (Some c) None None None None False m"

definition collection_loop_config :: "string \<Rightarrow> int option \<Rightarrow> LoopConfig" where
  "collection_loop_config c cnt = LoopConfig [] (Some c) cnt None (Some ''item'') None None None False 100"

definition iteration_event :: "string \<Rightarrow> nat \<times> pyval \<Rightarrow> event" where
  "iteration_event n p = LoopIteration n (fst p) (snd p)"

section \<open>The executor: the normal phase and the finally phase\<close>

text \<open>
  The \<^verbatim>\<open>for\<close> loop that starts the tasks of the ready steps in the normal phase: an
  exception of \<^verbatim>\<open>_create_step_task\<close> leaves the loop and the phase.
\<close>

fun start_tasks ::
  "world \<Rightarrow> StepConfig list \<Rightarrow> tasks \<Rightarrow> DAGExecutor \<Rightarrow> exn option \<times> tasks \<times> DAGExecutor" where
  "start_tasks w [] tasks ex = (None, tasks, ex)"
| "start_tasks w (step # rest) tasks ex =
     (case create_step_task w step ex of
        (Inl e, ex1) \<Rightarrow> (Some e, tasks, ex1)
      | (Inr None, ex1) \<Rightarrow> start_tasks w rest tasks ex1
      | (Inr (Some task), ex1) \<Rightarrow> start_tasks w rest (AList.update (name step) task tasks) ex1)"

text \<open>
  \<^verbatim>\<open>asyncio.wait(tasks.values(), return_when=FIRST_COMPLETED)\<close> returns a non-empty set
  of the tasks in flight: those that the event loop names, or the first one.
\<close>

definition pick_done :: "world \<Rightarrow> tasks \<Rightarrow> tasks" where
  "pick_done w tasks =
     (let d = filter (\<lambda>t. fst t \<in> set (first_completed w (map fst tasks))) tasks
      in if d = [] then take 1 tasks else d)"

fun process_done ::
  "world \<Rightarrow> StepConfig list \<Rightarrow> tasks \<Rightarrow> tasks \<Rightarrow> DAGExecutor \<Rightarrow> exn option \<times> tasks \<times> DAGExecutor" where
  "process_done w cfgs [] tasks ex = (None, tasks, ex)"
| "process_done w cfgs (t # ts) tasks ex =
     (case process_completed_task w t cfgs tasks ex of
        (Some e, tasks1, ex1) \<Rightarrow> (Some e, tasks1, ex1)
      | (None, tasks1, ex1) \<Rightarrow> process_done w cfgs ts tasks1 ex1)"

text \<open>
  The end of the normal phase when no step is ready and no task is in flight (lines 812
  to 852). A remaining step waits on a condition if the first of its dependencies that
  decides is conditional with a COMPLETED source, and on a failed dependency if it is a
  FAILED step; such steps are marked SKIPPED. With remaining steps of neither kind the
  pipeline has stalled.
\<close>

fun waiting_reason :: "DAGState \<Rightarrow> ParsedDependency list \<Rightarrow> bool option" where
  "waiting_reason st [] = None"
| "waiting_reason st (d # ds) =
     (if is_conditional d \<and> status_of st (step_name d) = Some COMPLETED then Some True
      else if status_of st (step_name d) = Some FAILED then Some False
      else waiting_reason st ds)"

definition normal_stall ::
  "StepConfig list \<Rightarrow> (string \<Rightarrow> ParsedDependency list) \<Rightarrow> DAGExecutor \<Rightarrow> exn option \<times> DAGExecutor" where
  "normal_stall normal_steps pdeps ex =
     (let remaining = filter (\<lambda>s. s \<in> set (map name normal_steps)) (get_remaining_steps (state ex))
      in if remaining = [] then (None, ex)
         else
           (let waiting_on_condition =
                  filter (\<lambda>r. waiting_reason (state ex) (pdeps r) = Some True) remaining;
                waiting_on_failed_deps =
                  filter (\<lambda>r. waiting_reason (state ex) (pdeps r) = Some False) remaining
            in if waiting_on_condition \<noteq> [] \<or> waiting_on_failed_deps \<noteq> []
               then (None, ex\<lparr>state := fold (\<lambda>n st. mark_step_skipped st n)
                                          (waiting_on_condition @ waiting_on_failed_deps) (state ex)\<rparr>)
               else (Some (ValueError ''Pipeline stalled''), ex)))"

text \<open>
  One turn of the \<^verbatim>\<open>while True\<close> loop of \<^verbatim>\<open>_execute_normal_phase\<close>: the phase ends
  (\<open>Inl\<close>, with the exception that left it, if any) or goes on with the tasks and the
  executor given (\<open>Inr\<close>).
\<close>

definition normal_ready ::
  "world \<Rightarrow> StepConfig list \<Rightarrow> (string \<Rightarrow> ParsedDependency list) \<Rightarrow> DAGExecutor \<Rightarrow> StepConfig list" where
  "normal_ready w cfgs pdeps ex =
     filter (\<lambda>s. is_step_ready (holds w) (state ex) (name s) pdeps (ctx_data (current_context ex)))
       (filter (\<lambda>s. \<not> is_finally s) cfgs)"

definition normal_round ::
  "world \<Rightarrow> StepConfig list \<Rightarrow> (string \<Rightarrow> ParsedDependency list) \<Rightarrow> tasks \<Rightarrow> DAGExecutor
     \<Rightarrow> (exn option \<times> tasks \<times> DAGExecutor) + (tasks \<times> DAGExecutor)" where
  "normal_round w cfgs pdeps tasks ex =
     (let ready_steps = normal_ready w cfgs pdeps ex
      in if ready_steps = [] \<and> tasks = []
         then (case normal_stall (filter (\<lambda>s. \<not> is_finally s) cfgs) pdeps ex of
                 (r, ex1) \<Rightarrow> Inl (r, tasks, ex1))
         else
           (case start_tasks w ready_steps tasks ex of
              (Some e, tasks1, ex1) \<Rightarrow> Inl (Some e, tasks1, ex1)
            | (None, tasks1, ex1) \<Rightarrow>
                if tasks1 = [] then Inr (tasks1, ex1)
                else (case process_done w cfgs (pick_done w tasks1) tasks1 ex1 of
                        (Some e, tasks2, ex2) \<Rightarrow> Inl (Some e, tasks2, ex2)
                      | (None, tasks2, ex2) \<Rightarrow> Inr (tasks2, ex2))))"

definition pending :: "DAGState \<Rightarrow> string set" where
  "pending st = {n. status_of st n = Some PENDING}"

text \<open>
  The loop of the normal phase ends: a turn that goes on either starts the task of a
  PENDING step, which is then no longer PENDING, or takes at least one completed task out
  of \<^verbatim>\<open>tasks\<close>, and no step becomes PENDING again. The lemmas below establish this measure
  for the definition of the loop.
\<close>

lemma status_of_update_step_other:
  "status_of (update_step st n f) m
     = (if m = n \<and> has_step st n then Some (step_status (f (the (map_of (step_states st) n))))
        else status_of st m)"
  by (auto simp: has_step_def status_of_def update_step_def update_conv' split: option.splits)

lemma finite_pending: "finite (pending st)"
proof -
  have "pending st \<subseteq> fst ` set (step_states st)"
    by (auto simp: pending_def status_of_def dest!: map_of_SomeD intro: rev_image_eqI)
  then show ?thesis by (rule finite_subset) simp
qed

lemma pending_update_step:
  "(\<And>ss. step_status (f ss) \<noteq> PENDING) \<Longrightarrow> pending (update_step st n f) = pending st - {n}"
proof -
  assume np: "\<And>ss. step_status (f ss) \<noteq> PENDING"
  have no: "\<not> has_step st n \<Longrightarrow> status_of st n = None"
    by (simp add: has_step_def status_of_def)
  have "(status_of (update_step st n f) m = Some PENDING)
          = (m \<noteq> n \<and> status_of st m = Some PENDING)" for m
    using np no by (cases "has_step st n") (auto simp: status_of_update_step_other)
  then show ?thesis by (auto simp: pending_def)
qed

lemma pending_marks:
  "pending (mark_step_running st n) = pending st - {n}"
  "pending (mark_step_completed st n arts) = pending st - {n}"
  "pending (mark_step_failed st n e) = pending st - {n}"
  "pending (mark_step_skipped st n) = pending st - {n}"
  "pending (mark_step_suspended st n) = pending st - {n}"
  by (simp_all add: mark_step_running_def mark_step_completed_def mark_step_failed_def
        mark_step_skipped_def mark_step_suspended_def pending_update_step)

lemma state_try_plugin: "state (snd (try_plugin w step a ex)) = state ex"
  by (auto simp: try_plugin_def Let_def report_progress_def emit_def
        split: prod.splits sum.splits option.splits)

lemma pending_fail_step:
  "pending (state (snd (fail_step step e r saved ex))) = pending (state ex) - {name step}"
  by (simp add: fail_step_def Let_def report_progress_def pending_marks)

lemma pending_run_with_retries:
  "pending (state (snd (run_with_retries w step a m ex))) \<subseteq> pending (state ex)"
proof (induction "nat (m - 1 - int a)" arbitrary: a ex)
  case 0
  then have n: "\<not> int a < m - 1" by linarith
  obtain r ex1 where t: "try_plugin w step a ex = (r, ex1)" by (cases "try_plugin w step a ex")
  with state_try_plugin [of w step a ex] have s: "state ex1 = state ex" by simp
  show ?case
    using t n s
    by (auto simp: run_with_retries.simps [of w step a] Let_def report_progress_def
          pending_marks pending_fail_step split: sum.splits exn.splits)
next
  case (Suc d)
  then have lt: "int a < m - 1" by linarith
  have d: "d = nat (m - 1 - int (a + 1))" using Suc.hyps(2) by linarith
  obtain r ex1 where t: "try_plugin w step a ex = (r, ex1)" by (cases "try_plugin w step a ex")
  with state_try_plugin [of w step a ex] have s: "state ex1 = state ex" by simp
  from Suc.hyps(1) [OF d, of "emit (Sleep (RETRY_DELAY * real (a + 1))) ex1"]
  have IH: "pending (state (snd (run_with_retries w step (a + 1) m
               (emit (Sleep (RETRY_DELAY * real (a + 1))) ex1)))) \<subseteq> pending (state ex)"
    by (simp add: emit_def s)
  show ?case
    using t lt s IH
    by (auto simp: run_with_retries.simps [of w step a] Let_def report_progress_def
          pending_marks pending_fail_step split: sum.splits exn.splits)
qed

lemma state_execute_loop_task: "state (snd (execute_loop_task w step ex)) = state ex"
  by (auto simp: execute_loop_task_def split: prod.splits option.splits)

lemma pending_run_task: "pending (state (snd (run_task w step ex))) \<subseteq> pending (state ex)"
  by (simp add: run_task_def state_execute_loop_task pending_run_with_retries)

lemma process_completed_task_tasks:
  "fst (snd (process_completed_task w t cfgs tasks ex)) = AList.delete (fst t) tasks"
  by (auto simp: process_completed_task_def Let_def split: prod.splits sum.splits exn.splits)

lemma pending_process_completed_task:
  "pending (state (snd (snd (process_completed_task w t cfgs tasks ex)))) \<subseteq> pending (state ex)"
proof -
  obtain r ex1 where rt: "run_task w (snd t) ex = (r, ex1)" by (cases "run_task w (snd t) ex")
  with pending_run_task [of w "snd t" ex] have s: "pending (state ex1) \<subseteq> pending (state ex)"
    by simp
  show ?thesis
    using rt s
    by (auto simp: process_completed_task_def Let_def report_progress_def fail_processed_def
          pending_marks split: prod.splits sum.splits exn.splits)
qed


lemma length_delete_le: "length (AList.delete k al) \<le> length al"
  by (simp add: AList.delete_eq)

lemma length_delete_less: "k \<in> fst ` set al \<Longrightarrow> length (AList.delete k al) < length al"
  by (auto simp: AList.delete_eq intro!: length_filter_less)

lemma process_done_decreases:
  "process_done w cfgs ds tasks ex = (r, tasks', ex')
     \<Longrightarrow> pending (state ex') \<subseteq> pending (state ex) \<and> length tasks' \<le> length tasks
         \<and> (r = None \<and> ds \<noteq> [] \<and> fst (hd ds) \<in> fst ` set tasks \<longrightarrow> length tasks' < length tasks)"
proof (induction ds arbitrary: tasks ex)
  case Nil
  then show ?case by simp
next
  case (Cons t ts)
  obtain r1 t1 ex1 where p: "process_completed_task w t cfgs tasks ex = (r1, t1, ex1)"
    by (cases "process_completed_task w t cfgs tasks ex") auto
  from process_completed_task_tasks [of w t cfgs tasks ex] p
  have t1: "t1 = AList.delete (fst t) tasks" by simp
  from pending_process_completed_task [of w t cfgs tasks ex] p
  have p1: "pending (state ex1) \<subseteq> pending (state ex)" by simp
  show ?case
  proof (cases r1)
    case (Some e)
    with Cons.prems p p1 t1 show ?thesis by (auto simp: length_delete_le)
  next
    case None
    with Cons.prems p have "process_done w cfgs ts t1 ex1 = (r, tasks', ex')" by simp
    from Cons.IH [OF this]
    have a: "pending (state ex') \<subseteq> pending (state ex1)" and b: "length tasks' \<le> length t1"
      by auto
    have c: "length t1 \<le> length tasks" unfolding t1 by (rule length_delete_le)
    have d: "fst t \<in> fst ` set tasks \<Longrightarrow> length t1 < length tasks"
      unfolding t1 by (rule length_delete_less)
    have e: "fst t \<in> fst ` set tasks \<longrightarrow> length tasks' < length tasks"
    proof
      assume "fst t \<in> fst ` set tasks"
      from d [OF this] b show "length tasks' < length tasks" by linarith
    qed
    have f: "length tasks' \<le> length tasks" using b c by linarith
    have g: "pending (state ex') \<subseteq> pending (state ex)" using a p1 by blast
    from e f g show ?thesis by simp
  qed
qed

lemma pick_done_nonempty:
  "tasks \<noteq> [] \<Longrightarrow> pick_done w tasks \<noteq> [] \<and> hd (pick_done w tasks) \<in> set tasks"
proof -
  assume ne: "tasks \<noteq> []"
  let ?d = "filter (\<lambda>t. fst t \<in> set (first_completed w (map fst tasks))) tasks"
  show ?thesis
  proof (cases "?d = []")
    case True
    with ne show ?thesis by (cases tasks) (auto simp: pick_done_def Let_def)
  next
    case False
    then have "hd ?d \<in> set ?d" by (rule hd_in_set)
    then have "hd ?d \<in> set tasks" by simp
    with False show ?thesis by (simp add: pick_done_def Let_def)
  qed
qed

lemma pending_create_step_task:
  "pending (state (snd (create_step_task w s ex))) = pending (state ex) - {name s}"
  by (auto simp: create_step_task_def Let_def report_progress_def pending_marks
        split: option.splits)

lemma start_tasks_pending:
  "start_tasks w ss tasks ex = (r, tasks', ex')
     \<Longrightarrow> pending (state ex') \<subseteq> pending (state ex)
         \<and> (r = None \<longrightarrow> pending (state ex') = pending (state ex) - name ` set ss)
         \<and> (tasks' = [] \<longrightarrow> tasks = [])"
proof (induction ss arbitrary: tasks ex)
  case Nil
  then show ?case by simp
next
  case (Cons s ss)
  obtain r1 ex1 where c: "create_step_task w s ex = (r1, ex1)"
    by (cases "create_step_task w s ex")
  from pending_create_step_task [of w s ex] c
  have p1: "pending (state ex1) = pending (state ex) - {name s}" by simp
  show ?case
  proof (cases r1)
    case (Inl e)
    with Cons.prems c p1 show ?thesis by auto
  next
    case (Inr t)
    show ?thesis
    proof (cases t)
      case None
      with Cons.prems c Inr have "start_tasks w ss tasks ex1 = (r, tasks', ex')" by simp
      from Cons.IH [OF this] p1 show ?thesis by auto
    next
      case (Some task)
      with Cons.prems c Inr
      have "start_tasks w ss (AList.update (name s) task tasks) ex1 = (r, tasks', ex')" by simp
      from Cons.IH [OF this] p1 show ?thesis by auto
    qed
  qed
qed

lemma normal_ready_pending:
  "s \<in> set (normal_ready w cfgs pdeps ex) \<Longrightarrow> name s \<in> pending (state ex)"
  by (simp add: normal_ready_def is_step_ready_def pending_def)

lemma normal_round_decreases:
  assumes "normal_round w cfgs pdeps tasks ex = Inr (tasks', ex')"
  shows "card (pending (state ex')) < card (pending (state ex))
         \<or> (card (pending (state ex')) \<le> card (pending (state ex)) \<and> length tasks' < length tasks)"
proof -
  let ?ready = "normal_ready w cfgs pdeps ex"
  from assms have ne: "\<not> (?ready = [] \<and> tasks = [])"
    by (auto simp: normal_round_def Let_def split: prod.splits)
  obtain r1 t1 ex1 where st: "start_tasks w ?ready tasks ex = (r1, t1, ex1)"
    by (cases "start_tasks w ?ready tasks ex") auto
  from assms ne st have r1: "r1 = None"
    by (cases r1) (auto simp: normal_round_def Let_def)
  from start_tasks_pending [OF st] r1
  have p1: "pending (state ex1) = pending (state ex) - name ` set ?ready"
    and e1: "t1 = [] \<longrightarrow> tasks = []" by auto
  have strict: "?ready \<noteq> [] \<Longrightarrow> card (pending (state ex1)) < card (pending (state ex))"
  proof -
    assume "?ready \<noteq> []"
    then obtain s where s: "s \<in> set ?ready" by (cases ?ready) auto
    then have "name s \<in> pending (state ex)" by (rule normal_ready_pending)
    with s p1 have "pending (state ex1) \<subset> pending (state ex)" by auto
    then show ?thesis by (rule psubset_card_mono [OF finite_pending])
  qed
  have le1: "card (pending (state ex1)) \<le> card (pending (state ex))"
    using p1 by (auto intro!: card_mono finite_pending)
  show ?thesis
  proof (cases "t1 = []")
    case True
    with assms ne st r1 have "tasks' = t1" "ex' = ex1"
      by (auto simp: normal_round_def Let_def)
    with True e1 ne strict show ?thesis by auto
  next
    case False
    obtain r2 t2 ex2 where pd: "process_done w cfgs (pick_done w t1) t1 ex1 = (r2, t2, ex2)"
      by (cases "process_done w cfgs (pick_done w t1) t1 ex1") auto
    from assms ne st r1 False pd have r2: "r2 = None" and eq: "tasks' = t2" "ex' = ex2"
      by (cases r2; auto simp: normal_round_def Let_def)+
    from pick_done_nonempty [OF False, of w]
    have pk: "pick_done w t1 \<noteq> []" "fst (hd (pick_done w t1)) \<in> fst ` set t1" by auto
    from process_done_decreases [OF pd] r2 pk
    have p2: "pending (state ex2) \<subseteq> pending (state ex1)" and l2: "length t2 < length t1"
      by auto
    from p2 have le2: "card (pending (state ex2)) \<le> card (pending (state ex1))"
      by (auto intro!: card_mono finite_pending)
    show ?thesis
    proof (cases "?ready = []")
      case True
      with st have "t1 = tasks" by simp
      with l2 le1 le2 eq show ?thesis by auto
    next
      case False
      from strict [OF this] le2 eq show ?thesis by auto
    qed
  qed
qed

text \<open>
  \<^verbatim>\<open>_execute_normal_phase\<close>: the turns of the loop until the phase ends.
\<close>

function normal_phase ::
  "world \<Rightarrow> StepConfig list \<Rightarrow> (string \<Rightarrow> ParsedDependency list) \<Rightarrow> tasks \<Rightarrow> DAGExecutor
     \<Rightarrow> exn option \<times> tasks \<times> DAGExecutor" where
  "normal_phase w cfgs pdeps tasks ex =
     (case normal_round w cfgs pdeps tasks ex of
        Inl r \<Rightarrow> r
      | Inr (tasks', ex') \<Rightarrow> normal_phase w cfgs pdeps tasks' ex')"
  by pat_completeness auto
termination
proof (relation "measures [\<lambda>(w, cfgs, pdeps, tasks, ex). card (pending (state ex)),
                           \<lambda>(w, cfgs, pdeps, tasks, ex). length tasks]")
  show "wf (measures [\<lambda>(w, cfgs, pdeps, tasks, ex). card (pending (state ex)),
                      \<lambda>(w, cfgs, pdeps, tasks, ex). length tasks])"
    by simp
next
  fix w cfgs pdeps tasks ex x2 tasks' ex'
  assume "normal_round w cfgs pdeps tasks ex = Inr x2" "(tasks', ex') = x2"
  then have "normal_round w cfgs pdeps tasks ex = Inr (tasks', ex')" by simp
  from normal_round_decreases [OF this]
  show "((w, cfgs, pdeps, tasks', ex'), (w, cfgs, pdeps, tasks, ex))
          \<in> measures [\<lambda>(w, cfgs, pdeps, tasks, ex). card (pending (state ex)),
                       \<lambda>(w, cfgs, pdeps, tasks, ex). length tasks]"
    by auto
qed


declare normal_phase.simps [simp del]

definition execute_normal_phase ::
  "world \<Rightarrow> StepConfig list \<Rightarrow> (string \<Rightarrow> ParsedDependency list) \<Rightarrow> tasks \<Rightarrow> DAGExecutor
     \<Rightarrow> exn option \<times> tasks \<times> DAGExecutor" where
  "execute_normal_phase w cfgs pdeps tasks ex =
     normal_phase w cfgs pdeps tasks (emit (PhaseStarted ''normal'') ex)"

text \<open>
  The finally phase. An exception of \<^verbatim>\<open>_create_step_task\<close> or of
  \<^verbatim>\<open>_process_completed_task\<close> is appended to \<^verbatim>\<open>finally_errors\<close> and the loop goes on.
\<close>

fun start_finally_tasks ::
  "world \<Rightarrow> StepConfig list \<Rightarrow> tasks \<Rightarrow> exn list \<Rightarrow> DAGExecutor \<Rightarrow> tasks \<times> exn list \<times> DAGExecutor" where
  "start_finally_tasks w [] tasks errs ex = (tasks, errs, ex)"
| "start_finally_tasks w (step # rest) tasks errs ex =
     (case create_step_task w step ex of
        (Inl e, ex1) \<Rightarrow> start_finally_tasks w rest tasks (errs @ [e]) ex1
      | (Inr None, ex1) \<Rightarrow> start_finally_tasks w rest tasks errs ex1
      | (Inr (Some task), ex1) \<Rightarrow>
          start_finally_tasks w rest (AList.update (name step) task tasks) errs ex1)"

fun process_finally_done ::
  "world \<Rightarrow> StepConfig list \<Rightarrow> tasks \<Rightarrow> tasks \<Rightarrow> exn list \<Rightarrow> DAGExecutor
     \<Rightarrow> tasks \<times> exn list \<times> DAGExecutor" where
  "process_finally_done w cfgs [] tasks errs ex = (tasks, errs, ex)"
| "process_finally_done w cfgs (t # ts) tasks errs ex =
     (case process_completed_task w t cfgs tasks ex of
        (Some e, tasks1, ex1) \<Rightarrow> process_finally_done w cfgs ts tasks1 (errs @ [e]) ex1
      | (None, tasks1, ex1) \<Rightarrow> process_finally_done w cfgs ts tasks1 errs ex1)"

definition finally_ready ::
  "StepConfig list \<Rightarrow> (string \<Rightarrow> ParsedDependency list) \<Rightarrow> DAGExecutor \<Rightarrow> StepConfig list" where
  "finally_ready cfgs pdeps ex =
     filter (\<lambda>s. is_step_ready_for_finally (state ex) (name s) pdeps) (filter is_finally cfgs)"

definition finally_round ::
  "world \<Rightarrow> StepConfig list \<Rightarrow> (string \<Rightarrow> ParsedDependency list) \<Rightarrow> tasks \<Rightarrow> exn list \<Rightarrow> DAGExecutor
     \<Rightarrow> (tasks \<times> exn list \<times> DAGExecutor) + (tasks \<times> exn list \<times> DAGExecutor)" where
  "finally_round w cfgs pdeps tasks errs ex =
     (let ready_steps = finally_ready cfgs pdeps ex
      in if ready_steps = [] \<and> tasks = [] then Inl (tasks, errs, ex)
         else
           (case start_finally_tasks w ready_steps tasks errs ex of
              (tasks1, errs1, ex1) \<Rightarrow>
                if tasks1 = [] then Inr (tasks1, errs1, ex1)
                else Inr (process_finally_done w cfgs (pick_done w tasks1) tasks1 errs1 ex1)))"

lemma start_finally_tasks_pending:
  "start_finally_tasks w ss tasks errs ex = (tasks', errs', ex')
     \<Longrightarrow> pending (state ex') = pending (state ex) - name ` set ss \<and> (tasks' = [] \<longrightarrow> tasks = [])"
proof (induction ss arbitrary: tasks errs ex)
  case Nil
  then show ?case by simp
next
  case (Cons s ss)
  obtain r1 ex1 where c: "create_step_task w s ex = (r1, ex1)"
    by (cases "create_step_task w s ex")
  from pending_create_step_task [of w s ex] c
  have p1: "pending (state ex1) = pending (state ex) - {name s}" by simp
  show ?case
  proof (cases r1)
    case (Inl e)
    with Cons.prems c have "start_finally_tasks w ss tasks (errs @ [e]) ex1 = (tasks', errs', ex')"
      by simp
    from Cons.IH [OF this] p1 show ?thesis by auto
  next
    case (Inr t)
    show ?thesis
    proof (cases t)
      case None
      with Cons.prems c Inr have "start_finally_tasks w ss tasks errs ex1 = (tasks', errs', ex')"
        by simp
      from Cons.IH [OF this] p1 show ?thesis by auto
    next
      case (Some task)
      with Cons.prems c Inr
      have "start_finally_tasks w ss (AList.update (name s) task tasks) errs ex1 = (tasks', errs', ex')"
        by simp
      from Cons.IH [OF this] p1 show ?thesis by auto
    qed
  qed
qed

lemma process_finally_done_decreases:
  "process_finally_done w cfgs ds tasks errs ex = (tasks', errs', ex')
     \<Longrightarrow> pending (state ex') \<subseteq> pending (state ex) \<and> length tasks' \<le> length tasks
         \<and> (ds \<noteq> [] \<and> fst (hd ds) \<in> fst ` set tasks \<longrightarrow> length tasks' < length tasks)"
proof (induction ds arbitrary: tasks errs ex)
  case Nil
  then show ?case by simp
next
  case (Cons t ts)
  obtain r1 t1 ex1 where p: "process_completed_task w t cfgs tasks ex = (r1, t1, ex1)"
    by (cases "process_completed_task w t cfgs tasks ex") auto
  from process_completed_task_tasks [of w t cfgs tasks ex] p
  have t1: "t1 = AList.delete (fst t) tasks" by simp
  from pending_process_completed_task [of w t cfgs tasks ex] p
  have p1: "pending (state ex1) \<subseteq> pending (state ex)" by simp
  obtain errs1 where "process_finally_done w cfgs ts t1 errs1 ex1 = (tasks', errs', ex')"
    using Cons.prems p by (cases r1) auto
  from Cons.IH [OF this]
  have a: "pending (state ex') \<subseteq> pending (state ex1)" and b: "length tasks' \<le> length t1"
    by auto
  have c: "length t1 \<le> length tasks" unfolding t1 by (rule length_delete_le)
  have d: "fst t \<in> fst ` set tasks \<Longrightarrow> length t1 < length tasks"
    unfolding t1 by (rule length_delete_less)
  have e: "fst t \<in> fst ` set tasks \<longrightarrow> length tasks' < length tasks"
  proof
    assume "fst t \<in> fst ` set tasks"
    from d [OF this] b show "length tasks' < length tasks" by linarith
  qed
  have f: "length tasks' \<le> length tasks" using b c by linarith
  have g: "pending (state ex') \<subseteq> pending (state ex)" using a p1 by blast
  from e f g show ?case by simp
qed

lemma finally_ready_pending:
  "s \<in> set (finally_ready cfgs pdeps ex) \<Longrightarrow> name s \<in> pending (state ex)"
  by (simp add: finally_ready_def is_step_ready_for_finally_def pending_def)

lemma finally_round_decreases:
  assumes "finally_round w cfgs pdeps tasks errs ex = Inr (tasks', errs', ex')"
  shows "card (pending (state ex')) < card (pending (state ex))
         \<or> (card (pending (state ex')) \<le> card (pending (state ex)) \<and> length tasks' < length tasks)"
proof -
  let ?ready = "finally_ready cfgs pdeps ex"
  from assms have ne: "\<not> (?ready = [] \<and> tasks = [])"
    by (auto simp: finally_round_def Let_def split: prod.splits)
  obtain t1 errs1 ex1 where st: "start_finally_tasks w ?ready tasks errs ex = (t1, errs1, ex1)"
    by (cases "start_finally_tasks w ?ready tasks errs ex") auto
  from start_finally_tasks_pending [OF st]
  have p1: "pending (state ex1) = pending (state ex) - name ` set ?ready"
    and e1: "t1 = [] \<longrightarrow> tasks = []" by auto
  have strict: "?ready \<noteq> [] \<Longrightarrow> card (pending (state ex1)) < card (pending (state ex))"
  proof -
    assume "?ready \<noteq> []"
    then obtain s where s: "s \<in> set ?ready" by (cases ?ready) auto
    then have "name s \<in> pending (state ex)" by (rule finally_ready_pending)
    with s p1 have "pending (state ex1) \<subset> pending (state ex)" by auto
    then show ?thesis by (rule psubset_card_mono [OF finite_pending])
  qed
  have le1: "card (pending (state ex1)) \<le> card (pending (state ex))"
    using p1 by (auto intro!: card_mono finite_pending)
  show ?thesis
  proof (cases "t1 = []")
    case True
    with assms ne st have "tasks' = t1" "ex' = ex1"
      by (auto simp: finally_round_def Let_def)
    with True e1 ne strict show ?thesis by auto
  next
    case False
    with assms ne st
    have pd: "process_finally_done w cfgs (pick_done w t1) t1 errs1 ex1 = (tasks', errs', ex')"
      by (auto simp: finally_round_def Let_def)
    from pick_done_nonempty [OF False, of w]
    have pk: "pick_done w t1 \<noteq> []" "fst (hd (pick_done w t1)) \<in> fst ` set t1" by auto
    from process_finally_done_decreases [OF pd] pk
    have p2: "pending (state ex') \<subseteq> pending (state ex1)" and l2: "length tasks' < length t1"
      by auto
    from p2 have le2: "card (pending (state ex')) \<le> card (pending (state ex1))"
      by (auto intro!: card_mono finite_pending)
    show ?thesis
    proof (cases "?ready = []")
      case True
      with st have "t1 = tasks" by simp
      with l2 le1 le2 show ?thesis by auto
    next
      case False
      from strict [OF this] le2 show ?thesis by auto
    qed
  qed
qed

function finally_loop ::
  "world \<Rightarrow> StepConfig list \<Rightarrow> (string \<Rightarrow> ParsedDependency list) \<Rightarrow> tasks \<Rightarrow> exn list \<Rightarrow> DAGExecutor
     \<Rightarrow> tasks \<times> exn list \<times> DAGExecutor" where
  "finally_loop w cfgs pdeps tasks errs ex =
     (case finally_round w cfgs pdeps tasks errs ex of
        Inl r \<Rightarrow> r
      | Inr (tasks', errs', ex') \<Rightarrow> finally_loop w cfgs pdeps tasks' errs' ex')"
  by pat_completeness auto
termination
proof (relation "measures [\<lambda>(w, cfgs, pdeps, tasks, errs, ex). card (pending (state ex)),
                           \<lambda>(w, cfgs, pdeps, tasks, errs, ex). length tasks]")
  show "wf (measures [\<lambda>(w, cfgs, pdeps, tasks, errs, ex). card (pending (state ex)),
                      \<lambda>(w, cfgs, pdeps, tasks, errs, ex). length tasks])"
    by simp
next
  fix w cfgs pdeps tasks errs ex x2 tasks' y errs' ex'
  assume "finally_round w cfgs pdeps tasks errs ex = Inr x2" "(tasks', y) = x2" "(errs', ex') = y"
  then have "finally_round w cfgs pdeps tasks errs ex = Inr (tasks', errs', ex')" by simp
  from finally_round_decreases [OF this]
  show "((w, cfgs, pdeps, tasks', errs', ex'), (w, cfgs, pdeps, tasks, errs, ex))
          \<in> measures [\<lambda>(w, cfgs, pdeps, tasks, errs, ex). card (pending (state ex)),
                       \<lambda>(w, cfgs, pdeps, tasks, errs, ex). length tasks]"
    by auto
qed

declare finally_loop.simps [simp del]

text \<open>
  \<^verbatim>\<open>_execute_finally_phase\<close>: without finally steps nothing is done; otherwise the loop
  runs, and afterwards the error of every finally step that is FAILED (a generic one if the
  state holds none) is appended to the errors collected.
\<close>

definition failed_finally_errors :: "StepConfig list \<Rightarrow> DAGState \<Rightarrow> exn list" where
  "failed_finally_errors finally_steps st =
     concat (map (\<lambda>s. if status_of st (name s) = Some FAILED
                       then [case map_of (step_states st) (name s) of
                               None \<Rightarrow> OtherException ''Finally step failed''
                             | Some ss \<Rightarrow> (case step_error ss of
                                             None \<Rightarrow> OtherException ''Finally step failed''
                                           | Some e \<Rightarrow> e)]
                       else [])
                 finally_steps)"

definition execute_finally_phase ::
  "world \<Rightarrow> StepConfig list \<Rightarrow> (string \<Rightarrow> ParsedDependency list) \<Rightarrow> tasks \<Rightarrow> DAGExecutor
     \<Rightarrow> exn list \<times> tasks \<times> DAGExecutor" where
  "execute_finally_phase w cfgs pdeps tasks ex =
     (if filter is_finally cfgs = [] then ([], tasks, ex)
      else
        (case finally_loop w cfgs pdeps tasks [] (emit (PhaseStarted ''finally'') ex) of
           (tasks', errs, ex') \<Rightarrow>
             (errs @ failed_finally_errors (filter is_finally cfgs) (state ex'), tasks', ex')))"

text \<open>
  \<^verbatim>\<open>_create_suspension_checkpoint\<close>: nothing is done without a checkpoint manager or a
  suspend context, while steps are RUNNING, or without a task id; otherwise the checkpoint
  is created from the state, the context and the suspension records, and
  \<^verbatim>\<open>PipelineSuspendedException\<close> is raised with its id, the suspended steps and the suspend
  data of the first suspended step. An exception of the checkpoint manager is raised as
  it is.
\<close>

definition first_suspend_info :: "SuspendContext \<Rightarrow> pyval option" where
  "first_suspend_info sc = (case suspend_data sc of
       [] \<Rightarrow> None
     | (first_step, info) # rest \<Rightarrow> if first_step \<noteq> [] then Some info else None)"

definition create_suspension_checkpoint :: "world \<Rightarrow> DAGExecutor \<Rightarrow> exn option \<times> DAGExecutor" where
  "create_suspension_checkpoint w ex =
     (case suspend_context ex of
        None \<Rightarrow> (None, emit (Warning ''Cannot create checkpoint'') ex)
      | Some sc \<Rightarrow>
          if \<not> checkpoint_manager ex then (None, emit (Warning ''Cannot create checkpoint'') ex)
          else if running_steps (state ex) \<noteq> [] then (None, ex)
          else if ctx_task_id (current_context ex) = [] then (None, ex)
          else
            (case create_checkpoint w (state ex) (current_context ex) of
               Inl e \<Rightarrow> (Some e, ex)
             | Inr checkpoint_id \<Rightarrow>
                 (Some (PipelineSuspendedException checkpoint_id (suspended_steps sc)
                          (first_suspend_info sc)),
                  emit (CheckpointCreated (ctx_task_id (current_context ex))
                          (ctx_pipeline_id (current_context ex)) (state ex) (current_context ex)
                          (suspended_steps sc) (suspend_data sc) (suspend_reasons sc)) ex)))"

text \<open>
  \<^verbatim>\<open>executeDAG\<close>. The state of a resumed run is kept, with the declared steps it lacks
  added as PENDING at the end. The normal phase runs, then the finally phase, whatever the
  normal phase raised; the errors of both are raised as one \<^verbatim>\<open>PipelineExecutionError\<close>.
  The closing \<^verbatim>\<open>finally\<close> block marks the execution as finished and creates the
  suspension checkpoint when steps have suspended: what it raises replaces the exception
  in flight.
\<close>

definition add_missing_steps :: "DAGState \<Rightarrow> StepConfig list \<Rightarrow> DAGState" where
  "add_missing_steps st cfgs =
     fold (\<lambda>s st. if map_of (step_states st) (name s) = None
                   then st\<lparr>step_states := step_states st @ [(name s, StepState_init)],
                           step_numbers := AList.update (name s) (Suc (length (step_numbers st)))
                                             (step_numbers st)\<rparr>
                   else st) cfgs st"

definition close_execution :: "world \<Rightarrow> DAGExecutor \<Rightarrow> exn option \<times> DAGExecutor" where
  "close_execution w ex =
     (let ex1 = ex\<lparr>state := finish_execution (state ex)\<rparr>
      in case (case suspend_context ex1 of
                 None \<Rightarrow> (None, ex1)
               | Some sc \<Rightarrow> if suspended_steps sc \<noteq> [] then create_suspension_checkpoint w ex1
                            else (None, ex1)) of
           (Some e, ex2) \<Rightarrow> (Some e, ex2)
         | (None, ex2) \<Rightarrow>
             (None, report_progress ''pipeline_summary''
                      (if failed_steps (state ex2) = [] then COMPLETED else FAILED) None ex2))"

definition run_phases ::
  "world \<Rightarrow> StepConfig list \<Rightarrow> DAGExecutor \<Rightarrow> exn option \<times> exn list \<times> DAGExecutor" where
  "run_phases w step_configs ex =
     (let pdeps = parsed_dependencies step_configs;
          (normal_phase_error, tasks1, ex1) = execute_normal_phase w step_configs pdeps [] ex;
          (finally_errors, tasks2, ex2) = execute_finally_phase w step_configs pdeps tasks1 ex1
      in (normal_phase_error, finally_errors, ex2))"

definition prepare_state :: "PipelineContext \<Rightarrow> StepConfig list \<Rightarrow> DAGExecutor \<Rightarrow> DAGExecutor" where
  "prepare_state context step_configs ex =
     ex\<lparr>state := (if steps (state ex) = [] then DAGState_init step_configs
                   else add_missing_steps (state ex) step_configs),
        current_context := context\<rparr>"

definition executeDAG ::
  "world \<Rightarrow> PipelineContext \<Rightarrow> StepConfig list \<Rightarrow> DAGExecutor \<Rightarrow> exn option \<times> DAGExecutor" where
  "executeDAG w context step_configs ex =
     (case validate_steps w step_configs of
        Some e \<Rightarrow> (Some e, ex)
      | None \<Rightarrow>
          (case resolve_connections w step_configs of
             Some e \<Rightarrow>
               (Some (ValueError ''Pipeline connection resolution failed''),
                (prepare_state context step_configs ex)\<lparr>current_context := current_context ex\<rparr>)
           | None \<Rightarrow>
               (case run_phases w step_configs (prepare_state context step_configs ex) of
                  (normal_phase_error, finally_errors, ex2) \<Rightarrow>
                    (case close_execution w ex2 of
                       (Some e, ex3) \<Rightarrow> (Some e, ex3)
                     | (None, ex3) \<Rightarrow>
                         (if normal_phase_error \<noteq> None \<or> finally_errors \<noteq> []
                          then Some (PipelineExecutionError normal_phase_error finally_errors)
                          else None, ex3)))))"

text \<open>
  Worlds in which the plugin of each step has one fixed outcome, every task in flight is
  returned as done by each wait, and the checkpoint manager answers \<^verbatim>\<open>cp\<close>.
\<close>

definition scripted_world :: "(string \<Rightarrow> exn + pyval option) \<Rightarrow> world" where
  "scripted_world outcome = flaky_world\<lparr>invoke := (\<lambda>n k p c. (outcome n, c))\<rparr>"




section \<open>The semaphore and the tasks that run concurrently\<close>





section \<open>ExecutionContext\<close>

text \<open>
  \<^verbatim>\<open>src/core/execution_context.py\<close>. An \<^verbatim>\<open>ExecutionContext\<close> wraps a \<^verbatim>\<open>PipelineContext\<close>
  object and holds a dictionary of extras; a child shares the wrapped object with its
  parent, so the objects live in a store and the fields hold references to them. A field
  value is a plain value, a reference to a \<^verbatim>\<open>PipelineContext\<close> or a reference to a
  dictionary.
\<close>

datatype fval = Val pyval | CtxRef nat | DictRef nat

record heap =
  contexts :: "nat \<rightharpoonup> PipelineContext"
  dicts :: "nat \<rightharpoonup> (string \<rightharpoonup> pyval)"
  next_dict :: nat

record ExecutionContext =
  ec_pipeline_context :: fval
  ec_checkpoint_id :: fval
  ec_resume_data :: fval
  ec_is_resume :: fval
  ec_checkpoint_manager :: fval
  ec_loop_iteration :: fval
  ec_step_name :: fval
  ec_pipeline_tools :: fval
  ec_pipeline_configuration :: fval
  ec_execution_config :: fval
  ec_agent_spec :: fval
  ec_session_id :: fval
  ec_extras :: fval
  ec_pipeline_config :: fval

definition dataclass_fields :: "string list" where
  "dataclass_fields =
     [''_pipeline_context'', ''checkpoint_id'', ''resume_data'', ''is_resume'',
      ''checkpoint_manager'', ''loop_iteration'', ''step_name'', ''pipeline_tools'',
      ''pipeline_configuration'', ''execution_config'', ''agent_spec'', ''session_id'',
      ''extras'', ''pipeline_config'']"

definition get_field :: "ExecutionContext \<Rightarrow> string \<Rightarrow> fval" where
  "get_field c k =
     (if k = ''_pipeline_context'' then ec_pipeline_context c
      else if k = ''checkpoint_id'' then ec_checkpoint_id c
      else if k = ''resume_data'' then ec_resume_data c
      else if k = ''is_resume'' then ec_is_resume c
      else if k = ''checkpoint_manager'' then ec_checkpoint_manager c
      else if k = ''loop_iteration'' then ec_loop_iteration c
      else if k = ''step_name'' then ec_step_name c
      else if k = ''pipeline_tools'' then ec_pipeline_tools c
      else if k = ''pipeline_configuration'' then ec_pipeline_configuration c
      else if k = ''execution_config'' then ec_execution_config c
      else if k = ''agent_spec'' then ec_agent_spec c
      else if k = ''session_id'' then ec_session_id c
      else if k = ''extras'' then ec_extras c
      else ec_pipeline_config c)"

definition set_field :: "ExecutionContext \<Rightarrow> string \<Rightarrow> fval \<Rightarrow> ExecutionContext" where
  "set_field c k v =
     (if k = ''_pipeline_context'' then c\<lparr>ec_pipeline_context := v\<rparr>
      else if k = ''checkpoint_id'' then c\<lparr>ec_checkpoint_id := v\<rparr>
      else if k = ''resume_data'' then c\<lparr>ec_resume_data := v\<rparr>
      else if k = ''is_resume'' then c\<lparr>ec_is_resume := v\<rparr>
      else if k = ''checkpoint_manager'' then c\<lparr>ec_checkpoint_manager := v\<rparr>
      else if k = ''loop_iteration'' then c\<lparr>ec_loop_iteration := v\<rparr>
      else if k = ''step_name'' then c\<lparr>ec_step_name := v\<rparr>
      else if k = ''pipeline_tools'' then c\<lparr>ec_pipeline_tools := v\<rparr>
      else if k = ''pipeline_configuration'' then c\<lparr>ec_pipeline_configuration := v\<rparr>
      else if k = ''execution_config'' then c\<lparr>ec_execution_config := v\<rparr>
      else if k = ''agent_spec'' then c\<lparr>ec_agent_spec := v\<rparr>
      else if k = ''session_id'' then c\<lparr>ec_session_id := v\<rparr>
      else if k = ''extras'' then c\<lparr>ec_extras := v\<rparr>
      else c\<lparr>ec_pipeline_config := v\<rparr>)"

text \<open>
  \<^verbatim>\<open>spawn_child(**overrides)\<close>: every field of the child is the override of its name if
  one is given and the parent's value otherwise; the default of \<^verbatim>\<open>extras\<close> is a copy of
  the parent's extras, made before the overrides are looked at. \<^verbatim>\<open>__post_init__\<close>
  refuses a child without a pipeline context.
\<close>

definition override :: "(string \<rightharpoonup> fval) \<Rightarrow> string \<Rightarrow> fval \<Rightarrow> fval" where
  "override overrides k dflt = (case overrides k of None \<Rightarrow> dflt | Some v \<Rightarrow> v)"

definition spawn_child ::
  "ExecutionContext \<Rightarrow> (string \<rightharpoonup> fval) \<Rightarrow> heap \<Rightarrow> exn + ExecutionContext \<times> heap" where
  "spawn_child self overrides h =
     (case (case ec_extras self of DictRef b \<Rightarrow> dicts h b | _ \<Rightarrow> None) of
        None \<Rightarrow> Inl (OtherException ''AttributeError'')
      | Some m \<Rightarrow>
          (let copy = next_dict h;
               h' = h\<lparr>dicts := (dicts h)(copy \<mapsto> m), next_dict := Suc copy\<rparr>;
               child =
                 \<lparr>ec_pipeline_context = override overrides ''_pipeline_context'' (ec_pipeline_context self),
                  ec_checkpoint_id = override overrides ''checkpoint_id'' (ec_checkpoint_id self),
                  ec_resume_data = override overrides ''resume_data'' (ec_resume_data self),
                  ec_is_resume = override overrides ''is_resume'' (ec_is_resume self),
                  ec_checkpoint_manager = override overrides ''checkpoint_manager'' (ec_checkpoint_manager self),
                  ec_loop_iteration = override overrides ''loop_iteration'' (ec_loop_iteration self),
                  ec_step_name = override overrides ''step_name'' (ec_step_name self),
                  ec_pipeline_tools = override overrides ''pipeline_tools'' (ec_pipeline_tools self),
                  ec_pipeline_configuration =
                    override overrides ''pipeline_configuration'' (ec_pipeline_configuration self),
                  ec_execution_config = override overrides ''execution_config'' (ec_execution_config self),
                  ec_agent_spec = override overrides ''agent_spec'' (ec_agent_spec self),
                  ec_session_id = override overrides ''session_id'' (ec_session_id self),
                  ec_extras = override overrides ''extras'' (DictRef copy),
                  ec_pipeline_config = override overrides ''pipeline_config'' (ec_pipeline_config self)\<rparr>
           in if ec_pipeline_context child = Val PNone
              then Inl (ValueError ''ExecutionContext requires a PipelineContext to wrap'')
              else Inr (child, h')))"

text \<open>
  The dict-like interface. A key that names a field reads and writes the field of this
  context; another key is looked up in the extras first and then in the wrapped
  \<^verbatim>\<open>PipelineContext\<close>, and is written to the wrapped \<^verbatim>\<open>PipelineContext\<close>.
\<close>

definition extras_of :: "ExecutionContext \<Rightarrow> heap \<Rightarrow> exn + (string \<rightharpoonup> pyval)" where
  "extras_of self h = (case ec_extras self of
       DictRef b \<Rightarrow> (case dicts h b of None \<Rightarrow> Inl (OtherException ''TypeError'') | Some m \<Rightarrow> Inr m)
     | _ \<Rightarrow> Inl (OtherException ''TypeError''))"

definition wrapped_of :: "ExecutionContext \<Rightarrow> heap \<Rightarrow> exn + nat \<times> PipelineContext" where
  "wrapped_of self h = (case ec_pipeline_context self of
       Val PNone \<Rightarrow> Inl (RuntimeError ''ExecutionContext pipeline context is None'')
     | CtxRef a \<Rightarrow> (case contexts h a of
                     None \<Rightarrow> Inl (OtherException ''TypeError'')
                   | Some pc \<Rightarrow> Inr (a, pc))
     | _ \<Rightarrow> Inl (OtherException ''TypeError''))"

definition getitem :: "ExecutionContext \<Rightarrow> string \<Rightarrow> heap \<Rightarrow> exn + fval" where
  "getitem self key h =
     (if key \<in> set dataclass_fields then Inr (get_field self key)
      else case extras_of self h of
             Inl e \<Rightarrow> Inl e
           | Inr m \<Rightarrow>
               (case m key of
                  Some v \<Rightarrow> Inr (Val v)
                | None \<Rightarrow>
                    (case wrapped_of self h of
                       Inl e \<Rightarrow> Inl e
                     | Inr (a, pc) \<Rightarrow>
                         (case ctx_data pc key of
                            None \<Rightarrow> Inl (OtherException ''KeyError'')
                          | Some v \<Rightarrow> Inr (Val v)))))"

definition setitem ::
  "ExecutionContext \<Rightarrow> string \<Rightarrow> pyval \<Rightarrow> heap \<Rightarrow> exn + ExecutionContext \<times> heap" where
  "setitem self key v h =
     (if key \<in> set dataclass_fields then Inr (set_field self key (Val v), h)
      else case wrapped_of self h of
             Inl e \<Rightarrow> Inl e
           | Inr (a, pc) \<Rightarrow> Inr (self, h\<lparr>contexts := (contexts h)(a \<mapsto> ctx_set pc key v)\<rparr>))"

definition contains :: "ExecutionContext \<Rightarrow> string \<Rightarrow> heap \<Rightarrow> exn + bool" where
  "contains self key h =
     (if key \<in> set dataclass_fields then Inr True
      else case extras_of self h of
             Inl e \<Rightarrow> Inl e
           | Inr m \<Rightarrow>
               if m key \<noteq> None then Inr True
               else (case wrapped_of self h of
                       Inl e \<Rightarrow> Inl e
                     | Inr (a, pc) \<Rightarrow> Inr (ctx_data pc key \<noteq> None)))"

text \<open>
  \<^verbatim>\<open>__setattr__\<close>: a name that is not a field is stored in the extras of this context.
\<close>

definition setattr ::
  "ExecutionContext \<Rightarrow> string \<Rightarrow> pyval \<Rightarrow> heap \<Rightarrow> exn + ExecutionContext \<times> heap" where
  "setattr self attr v h =
     (if attr \<in> set dataclass_fields then Inr (set_field self attr (Val v), h)
      else case ec_extras self of
             DictRef b \<Rightarrow>
               (case dicts h b of
                  None \<Rightarrow> Inl (OtherException ''TypeError'')
                | Some m \<Rightarrow> Inr (self, h\<lparr>dicts := (dicts h)(b \<mapsto> m(attr \<mapsto> v))\<rparr>))
           | _ \<Rightarrow> Inl (OtherException ''TypeError''))"

text \<open>A parent context with an entry \<^verbatim>\<open>x\<close> in its extras, and the store that holds it.\<close>

definition parent_context :: ExecutionContext where
  "parent_context =
     \<lparr>ec_pipeline_context = CtxRef 0, ec_checkpoint_id = Val PNone, ec_resume_data = Val PNone,
      ec_is_resume = Val (PBool False), ec_checkpoint_manager = Val PNone,
      ec_loop_iteration = Val PNone, ec_step_name = Val PNone, ec_pipeline_tools = Val PNone,
      ec_pipeline_configuration = Val PNone, ec_execution_config = Val PNone,
      ec_agent_spec = Val PNone, ec_session_id = Val PNone, ec_extras = DictRef 0,
      ec_pipeline_config = Val PNone\<rparr>"

definition parent_heap :: heap where
  "parent_heap =
     \<lparr>contexts = [0 \<mapsto> empty_context, 1 \<mapsto> empty_context],
      dicts = [0 \<mapsto> [''x'' \<mapsto> PInt 1]], next_dict = 1\<rparr>"

text \<open>
  What the parent reads under a key after a child, spawned with the given overrides, has
  been assigned a value under that key through the dict-like interface.
\<close>

definition parent_reads_after_child_assigns ::
  "ExecutionContext \<Rightarrow> (string \<rightharpoonup> fval) \<Rightarrow> string \<Rightarrow> pyval \<Rightarrow> heap \<Rightarrow> exn + fval" where
  "parent_reads_after_child_assigns parent overrides key v h =
     (case spawn_child parent overrides h of
        Inl e \<Rightarrow> Inl e
      | Inr (child, h') \<Rightarrow>
          (case setitem child key v h' of
             Inl e \<Rightarrow> Inl e
           | Inr (child', h'') \<Rightarrow> getitem parent key h''))"

section \<open>Resuming from a checkpoint\<close>

text \<open>
  \<^verbatim>\<open>resume_from_checkpoint\<close> of \<^verbatim>\<open>src/core/dag_executor.py\<close>. The output that is
  synthesized for a step completed during the suspension is a transcript built from the
  fields \<^verbatim>\<open>full_name\<close>, \<^verbatim>\<open>email\<close>, \<^verbatim>\<open>physical_address\<close> and \<^verbatim>\<open>birth_date\<close> of the
  collected data that are present. The test \<^verbatim>\<open>key in collected_data\<close> is the membership
  of a mapping, a list or a string, and fails on other values; reading the field of
  collected data that are not a mapping fails.
\<close>

fun starts_with :: "string \<Rightarrow> string \<Rightarrow> bool" where
  "starts_with [] ys = True"
| "starts_with (x # xs) [] = False"
| "starts_with (x # xs) (y # ys) = (x = y \<and> starts_with xs ys)"

fun has_substring :: "string \<Rightarrow> string \<Rightarrow> bool" where
  "has_substring k [] = (k = [])"
| "has_substring k (y # ys) = (starts_with k (y # ys) \<or> has_substring k ys)"

definition blank_line :: string where
  "blank_line = [CHR 0x0A, CHR 0x0A]"

definition transcript_part :: "world \<Rightarrow> pyval \<Rightarrow> string \<Rightarrow> string \<Rightarrow> exn + string" where
  "transcript_part w collected_data k question = (case collected_data of
       PDict d \<Rightarrow> (case map_of d k of
                     None \<Rightarrow> Inr []
                   | Some x \<Rightarrow> Inr (''Assistant: '' @ question @ blank_line
                                     @ ''User: '' @ str_of w x @ blank_line))
     | PList xs \<Rightarrow> if PStr k \<in> set xs then Inl (OtherException ''TypeError'') else Inr []
     | PStr s \<Rightarrow> if has_substring k s then Inl (OtherException ''TypeError'') else Inr []
     | _ \<Rightarrow> Inl (OtherException ''TypeError''))"

definition synthesize_output :: "world \<Rightarrow> pyval \<Rightarrow> exn + pyval" where
  "synthesize_output w collected_data =
     (case transcript_part w collected_data ''full_name'' ''What is your full name?'' of
        Inl e \<Rightarrow> Inl e
      | Inr p1 \<Rightarrow>
     (case transcript_part w collected_data ''email'' ''What is your email address?'' of
        Inl e \<Rightarrow> Inl e
      | Inr p2 \<Rightarrow>
     (case transcript_part w collected_data ''physical_address'' ''What is your physical address?'' of
        Inl e \<Rightarrow> Inl e
      | Inr p3 \<Rightarrow>
     (case transcript_part w collected_data ''birth_date'' ''What is your birth date?'' of
        Inl e \<Rightarrow> Inl e
      | Inr p4 \<Rightarrow>
          Inr (PDict
            [(''transcript'',
              PStr (''User: I need to collect some information from you.'' @ blank_line
                    @ p1 @ p2 @ p3 @ p4
                    @ ''Assistant: Thank you! I have collected all the required information.'')),
             (''response'', PStr ''Successfully collected all required information.''),
             (''metadata'',
              PDict [(''collected_data'', collected_data), (''pipeline_resumed'', PBool True)])])))))"

text \<open>
  The resume data of a step are a completion payload when they are a mapping whose entry
  \<^verbatim>\<open>complete\<close> is truthy.
\<close>

definition is_completion :: "fval \<Rightarrow> bool" where
  "is_completion x = (case x of
       Val (PDict d) \<Rightarrow> (case map_of d ''complete'' of None \<Rightarrow> False | Some c \<Rightarrow> truthy c)
     | _ \<Rightarrow> False)"

definition collected_data_of :: "fval \<Rightarrow> pyval option" where
  "collected_data_of x = (case x of Val (PDict d) \<Rightarrow> map_of d ''collected_data'' | _ \<Rightarrow> None)"

definition error_of :: "DAGState \<Rightarrow> string \<Rightarrow> exn option" where
  "error_of st n = (case map_of (step_states st) n of None \<Rightarrow> None | Some ss \<Rightarrow> step_error ss)"

record resume_state =
  rs_context :: ExecutionContext
  rs_heap :: heap
  rs_state :: DAGState
  rs_suspend_context :: "SuspendContext option"

text \<open>
  The body of the loop over \<^verbatim>\<open>checkpoint.suspended_at_steps\<close> (lines 1346 to 1424) for
  one step. Reading the state of a step that the restored state does not have raises
  \<^verbatim>\<open>KeyError\<close>.
\<close>

definition resume_step :: "world \<Rightarrow> string \<Rightarrow> resume_state \<Rightarrow> exn + resume_state" where
  "resume_step w n rs =
     (let resume_data_key = n @ ''_resume_data''
      in case contains (rs_context rs) resume_data_key (rs_heap rs) of
           Inl e \<Rightarrow> Inl e
         | Inr False \<Rightarrow> Inr rs
         | Inr True \<Rightarrow>
             (case getitem (rs_context rs) resume_data_key (rs_heap rs) of
                Inl e \<Rightarrow> Inl e
              | Inr step_resume_data \<Rightarrow>
                  if is_completion step_resume_data then
                    (case (case collected_data_of step_resume_data of
                             None \<Rightarrow> Inr (rs_context rs, rs_heap rs)
                           | Some collected_data \<Rightarrow>
                               (case synthesize_output w collected_data of
                                  Inl e \<Rightarrow> Inl e
                                | Inr step_output \<Rightarrow>
                                    setitem (rs_context rs) n step_output (rs_heap rs))) of
                       Inl e \<Rightarrow> Inl e
                     | Inr (c, h) \<Rightarrow>
                         Inr (rs\<lparr>rs_context := c, rs_heap := h,
                                 rs_state := mark_step_completed_from_suspension (rs_state rs) n True,
                                 rs_suspend_context :=
                                   map_option (\<lambda>sc. sc\<lparr>suspended_steps := remove1 n (suspended_steps sc)\<rparr>)
                                     (rs_suspend_context rs)\<rparr>))
                  else if \<not> has_step (rs_state rs) n then Inl (OtherException ''KeyError'')
                  else Inr (rs\<lparr>rs_state :=
                                  mark_step_resumed
                                    (if error_of (rs_state rs) n \<noteq> None
                                     then clear_step_error (rs_state rs) n else rs_state rs) n\<rparr>)))"

fun resume_suspended_steps :: "world \<Rightarrow> string list \<Rightarrow> resume_state \<Rightarrow> exn + resume_state" where
  "resume_suspended_steps w [] rs = Inr rs"
| "resume_suspended_steps w (n # ns) rs =
     (case resume_step w n rs of
        Inl e \<Rightarrow> Inl e
      | Inr rs' \<Rightarrow> resume_suspended_steps w ns rs')"

text \<open>
  The resume data that the context carries are injected under the key
  \<^verbatim>\<open><step>_resume_data\<close> of each step (lines 1334 to 1343).
\<close>

fun inject_items ::
  "(string \<times> pyval) list \<Rightarrow> ExecutionContext \<Rightarrow> heap \<Rightarrow> exn + ExecutionContext \<times> heap" where
  "inject_items [] c h = Inr (c, h)"
| "inject_items ((n, step_data) # rest) c h =
     (case setitem c (n @ ''_resume_data'') step_data h of
        Inl e \<Rightarrow> Inl e
      | Inr (c', h') \<Rightarrow> inject_items rest c' h')"

definition inject_resume_data :: "ExecutionContext \<Rightarrow> heap \<Rightarrow> exn + ExecutionContext \<times> heap" where
  "inject_resume_data c h = (case ec_resume_data c of
       Val (PDict d) \<Rightarrow> if d \<noteq> [] then inject_items d c h else Inr (c, h)
     | _ \<Rightarrow> Inr (c, h))"

text \<open>
  Modelled from the spec: \<^verbatim>\<open>src/core/checkpoint_manager.py\<close> is not among the sources. A
  checkpoint holds its id, the snapshot of the DAG state, the snapshot of the context data
  and the steps at which the run was suspended (spec 3); restoring the DAG state gives the
  snapshot back, restoring the context adds the snapshotted data to the context (spec 4.8).
  What \<^verbatim>\<open>load_checkpoint\<close> and \<^verbatim>\<open>start_resume\<close> answer are arguments.
\<close>

record Checkpoint =
  cp_checkpoint_id :: string
  suspended_at_steps :: "string list"
  dag_state_snapshot :: DAGState
  context_snapshot :: "string \<rightharpoonup> pyval"

definition restore_context :: "Checkpoint \<Rightarrow> ExecutionContext \<Rightarrow> heap \<Rightarrow> exn + heap" where
  "restore_context cp c h = (case wrapped_of c h of
       Inl e \<Rightarrow> Inl e
     | Inr (a, pc) \<Rightarrow> Inr (h\<lparr>contexts := (contexts h)(a \<mapsto> ctx_update pc (context_snapshot cp))\<rparr>))"

text \<open>
  \<^verbatim>\<open>resume_from_checkpoint\<close>: after the checks, the state and the context are restored, a
  new SuspendContext is set, the suspended steps are resumed one by one, and the execution
  continues with \<^verbatim>\<open>executeDAG\<close> on the restored state; the executor reads and writes the
  wrapped \<^verbatim>\<open>PipelineContext\<close>.
\<close>

definition resume_from_checkpoint ::
  "world \<Rightarrow> Checkpoint option \<Rightarrow> bool \<Rightarrow> ExecutionContext \<Rightarrow> heap \<Rightarrow> StepConfig list \<Rightarrow> DAGExecutor
     \<Rightarrow> exn option \<times> heap \<times> DAGExecutor" where
  "resume_from_checkpoint w loaded start_resume context h step_configs ex =
     (if \<not> checkpoint_manager ex then (Some (ValueError ''Checkpoint manager not configured''), h, ex)
      else case loaded of
        None \<Rightarrow> (Some (ValueError ''Checkpoint not found''), h, ex)
      | Some checkpoint \<Rightarrow>
          if \<not> start_resume then (Some (RuntimeError ''Another resume is already in progress''), h, ex)
          else
            (let ex1 = ex\<lparr>state := dag_state_snapshot checkpoint\<rparr>
             in case restore_context checkpoint context h of
                  Inl e \<Rightarrow> (Some e, h, ex1)
                | Inr h1 \<Rightarrow>
                    (let ex2 = ex1\<lparr>suspend_context := Some SuspendContext_init\<rparr>
                     in case inject_resume_data context h1 of
                          Inl e \<Rightarrow> (Some e, h1, ex2)
                        | Inr (c2, h2) \<Rightarrow>
                            (case resume_suspended_steps w (suspended_at_steps checkpoint)
                                    \<lparr>rs_context = c2, rs_heap = h2, rs_state = state ex2,
                                     rs_suspend_context = suspend_context ex2\<rparr> of
                               Inl e \<Rightarrow> (Some e, h2, ex2)
                             | Inr rs \<Rightarrow>
                                 (case wrapped_of (rs_context rs) (rs_heap rs) of
                                    Inl e \<Rightarrow> (Some e, rs_heap rs, ex2)
                                  | Inr (a, pc) \<Rightarrow>
                                      (case executeDAG w pc step_configs
                                              (ex2\<lparr>state := rs_state rs,
                                                   suspend_context := rs_suspend_context rs\<rparr>) of
                                         (r, ex3) \<Rightarrow>
                                           (r, (rs_heap rs)\<lparr>contexts :=
                                                  (contexts (rs_heap rs))(a \<mapsto> current_context ex3)\<rparr>,
                                            ex3)))))))"

text \<open>
  A context whose wrapped \<^verbatim>\<open>PipelineContext\<close> holds the given data, with empty extras, and
  a restored state in which the step \<^verbatim>\<open>ask\<close> is SUSPENDED with the error of its
  suspension.
\<close>

definition resume_heap :: "(string \<rightharpoonup> pyval) \<Rightarrow> heap" where
  "resume_heap d =
     \<lparr>contexts = [0 \<mapsto> empty_context\<lparr>ctx_data := d\<rparr>], dicts = [0 \<mapsto> Map.empty], next_dict = 1\<rparr>"

definition suspended_state :: DAGState where
  "suspended_state =
     mark_step_suspended
       (mark_step_failed (DAGState_init [plain_step ''ask'' [] True False]) ''ask''
          (PluginSuspendedException ''need input'' (PStr ''name'')))
       ''ask''"

definition resume_start :: "(string \<rightharpoonup> pyval) \<Rightarrow> resume_state" where
  "resume_start d =
     \<lparr>rs_context = parent_context, rs_heap = resume_heap d, rs_state = suspended_state,
      rs_suspend_context = Some SuspendContext_init\<rparr>"

text \<open>
  The resume data that the context supplies for a step (\<^verbatim>\<open>resume_data_key in context\<close>,
  then \<^verbatim>\<open>context[resume_data_key]\<close>), and what the wrapped \<^verbatim>\<open>PipelineContext\<close> holds
  under a key.
\<close>

definition resume_data_for :: "ExecutionContext \<Rightarrow> heap \<Rightarrow> string \<Rightarrow> fval option" where
  "resume_data_for c h n = (case contains c (n @ ''_resume_data'') h of
       Inr True \<Rightarrow> (case getitem c (n @ ''_resume_data'') h of Inr x \<Rightarrow> Some x | Inl e \<Rightarrow> None)
     | _ \<Rightarrow> None)"

definition stored_output :: "ExecutionContext \<Rightarrow> heap \<Rightarrow> string \<Rightarrow> pyval option" where
  "stored_output c h n = (case wrapped_of c h of Inr (a, pc) \<Rightarrow> ctx_data pc n | Inl e \<Rightarrow> None)"

text \<open>
  What is observed of a step after \<^verbatim>\<open>resume_step\<close>: its status, its error and what the
  wrapped context holds under its name.
\<close>

definition resume_outcome ::
  "world \<Rightarrow> string \<Rightarrow> resume_state \<Rightarrow> exn + StepStatus option \<times> exn option \<times> pyval option" where
  "resume_outcome w n rs = (case resume_step w n rs of
       Inl e \<Rightarrow> Inl e
     | Inr rs' \<Rightarrow> Inr (status_of (rs_state rs') n, error_of (rs_state rs') n,
                       stored_output (rs_context rs') (rs_heap rs') n))"

text \<open>
  The resume data of scenario 5 of the specification, a checkpoint taken at the suspended
  step \<^verbatim>\<open>ask\<close>, and the output synthesized for the collected data when every value is
  rendered as \<^verbatim>\<open>v\<close>.
\<close>

definition ada_payload :: pyval where
  "ada_payload =
     PDict [(''complete'', PBool True), (''collected_data'', PDict [(''full_name'', PStr ''Ada'')])]"

definition ask_checkpoint :: Checkpoint where
  "ask_checkpoint =
     \<lparr>cp_checkpoint_id = ''cp'', suspended_at_steps = [''ask''],
      dag_state_snapshot = suspended_state, context_snapshot = Map.empty\<rparr>"

definition ada_output :: pyval where
  "ada_output =
     PDict [(''transcript'',
             PStr (''User: I need to collect some information from you.'' @ blank_line
                   @ ''Assistant: What is your full name?'' @ blank_line
                   @ ''User: v'' @ blank_line
                   @ ''Assistant: Thank you! I have collected all the required information.'')),
            (''response'', PStr ''Successfully collected all required information.''),
            (''metadata'',
             PDict [(''collected_data'', PDict [(''full_name'', PStr ''Ada'')]),
                    (''pipeline_resumed'', PBool True)])]"

section \<open>Verified properties\<close>

subsection \<open>The doubled middleware chain\<close>

lemma handlers_ArtifactManager_init:
  "handlers (ArtifactManager_init base d) = default_handlers @ default_handlers"
  by (simp add: ArtifactManager_init_def ArtifactCommandHandler_init_def setup_default_handlers_def)

lemma run_handler_cases:
  assumes "run_handler ops h c s = (Inr r, s')"
  shows "\<exists>c'. r = Some c' \<and> cmd_id c' = cmd_id c \<and> task_id c' = task_id c
           \<and> base_dir s' = base_dir s
           \<and> (h = record_command \<longrightarrow> c' = c \<and> command_history s' = command_history s @ [c])
           \<and> (h \<noteq> record_command \<longrightarrow> command_history s' = command_history s)"
  using assms
  by (cases h)
     (auto simp: run_handler_def with_status_def Let_def
           split: if_splits sum.splits artifact_content.splits write_result.splits)

lemma default_chain_once:
  assumes "middleware_execute ops (default_handlers @ rest) (Some c) s = (Inr r, s')"
  shows "\<exists>c1 s1. middleware_execute ops rest (Some c1) s1 = (Inr r, s')
           \<and> cmd_id c1 = cmd_id c \<and> task_id c1 = task_id c \<and> base_dir s1 = base_dir s
           \<and> command_history s1 = command_history s @ [c1]"
proof -
  obtain o1 s1 where r1: "run_handler ops validate_command c s = (o1, s1)"
    by (cases "run_handler ops validate_command c s")
  from assms r1 obtain q1 where o1: "o1 = Inr q1"
    by (cases o1) (auto simp: default_handlers_def)
  from run_handler_cases [OF r1 [unfolded o1]] obtain a1 where
    a1: "q1 = Some a1" "cmd_id a1 = cmd_id c" "task_id a1 = task_id c"
        "base_dir s1 = base_dir s" "command_history s1 = command_history s"
    by auto
  obtain o2 s2 where r2: "run_handler ops prepare_directories a1 s1 = (o2, s2)"
    by (cases "run_handler ops prepare_directories a1 s1")
  from assms r1 o1 a1 r2 obtain q2 where o2: "o2 = Inr q2"
    by (cases o2) (auto simp: default_handlers_def)
  from run_handler_cases [OF r2 [unfolded o2]] obtain a2 where
    a2: "q2 = Some a2" "cmd_id a2 = cmd_id a1" "task_id a2 = task_id a1"
        "base_dir s2 = base_dir s1" "command_history s2 = command_history s1"
    by auto
  obtain o3 s3 where r3: "run_handler ops save_to_disk a2 s2 = (o3, s3)"
    by (cases "run_handler ops save_to_disk a2 s2")
  from assms r1 o1 a1 r2 o2 a2 r3 obtain q3 where o3: "o3 = Inr q3"
    by (cases o3) (auto simp: default_handlers_def)
  from run_handler_cases [OF r3 [unfolded o3]] obtain a3 where
    a3: "q3 = Some a3" "cmd_id a3 = cmd_id a2" "task_id a3 = task_id a2"
        "base_dir s3 = base_dir s2" "command_history s3 = command_history s2"
    by auto
  obtain o4 s4 where r4: "run_handler ops record_command a3 s3 = (o4, s4)"
    by (cases "run_handler ops record_command a3 s3")
  from assms r1 o1 a1 r2 o2 a2 r3 o3 a3 r4 obtain q4 where o4: "o4 = Inr q4"
    by (cases o4) (auto simp: default_handlers_def)
  from run_handler_cases [OF r4 [unfolded o4]] have
    a4: "q4 = Some a3" "base_dir s4 = base_dir s3" "command_history s4 = command_history s3 @ [a3]"
    by auto
  from assms r1 o1 a1 r2 o2 a2 r3 o3 a3 r4 o4 a4
  have "middleware_execute ops rest (Some a3) s4 = (Inr r, s')"
    by (simp add: default_handlers_def)
  with a1 a2 a3 a4 show ?thesis by auto
qed

text \<open>
  C10. The constructor of \<^verbatim>\<open>ArtifactManager\<close> leaves the default chain installed twice
  (eight handlers), so a command executed through \<^verbatim>\<open>save_artifact\<close> passes through the
  chain twice: whenever \<^verbatim>\<open>save_artifact\<close> returns (does not raise), exactly two records of
  that one command (both with its id and task id, the second being the returned command)
  have been appended to \<^verbatim>\<open>command_history\<close>, and \<^verbatim>\<open>get_task_artifacts\<close> for its task has
  grown by two. This holds from the freshly built manager and from every later state of it
  (any history \<open>hist\<close>, any disk \<open>d\<close>).
\<close>

theorem save_artifact_recorded_twice:
  assumes "save_artifact ops fresh_id now tid fname cont sub md
             ((ArtifactManager_init base d0)\<lparr>command_history := hist, disk := d\<rparr>) = (Inr r, s')"
  shows "handlers (ArtifactManager_init base d0)
           = [validate_command, prepare_directories, save_to_disk, record_command,
              validate_command, prepare_directories, save_to_disk, record_command]
         \<and> (\<exists>c1. command_history s' = hist @ [c1, r]
               \<and> cmd_id c1 = fresh_id \<and> cmd_id r = fresh_id
               \<and> task_id c1 = tid \<and> task_id r = tid)
         \<and> length (get_task_artifacts s' tid)
             = length (filter (\<lambda>cmd. task_id cmd = tid) hist) + 2"
proof -
  let ?s = "(ArtifactManager_init base d0)\<lparr>command_history := hist, disk := d\<rparr>"
  let ?c = "\<lparr>operation = SAVE, task_id = tid, filename = fname, content = cont,
             content_type = get_content_type cont, cmd_id = fresh_id, subdir = sub,
             metadata = (case md of None \<Rightarrow> [] | Some m \<Rightarrow> m), timestamp = now,
             status = Cmd_PENDING, error = None\<rparr>"
  have hs: "handlers ?s = default_handlers @ (default_handlers @ [])"
    by (simp add: handlers_ArtifactManager_init)
  obtain res s1 where ex: "middleware_execute ops (handlers ?s) (Some ?c) ?s = (res, s1)"
    by (cases "middleware_execute ops (handlers ?s) (Some ?c) ?s")
  have "\<exists>q. res = Inr q \<and> s1 = s'"
    using assms ex
    by (cases res)
       (auto simp: save_artifact_def handler_execute_def with_status_def Let_def
             split: option.splits if_splits)
  then obtain q where q: "res = Inr q" "s1 = s'" by blast
  from ex q hs have m0: "middleware_execute ops (default_handlers @ (default_handlers @ []))
                           (Some ?c) ?s = (Inr q, s')"
    by simp
  from default_chain_once [OF m0] obtain c1 t1 where
    c1: "middleware_execute ops (default_handlers @ []) (Some c1) t1 = (Inr q, s')"
        "cmd_id c1 = fresh_id" "task_id c1 = tid" "command_history t1 = hist @ [c1]"
    by auto
  from default_chain_once [OF c1(1)] obtain c2 t2 where
    c2: "middleware_execute ops [] (Some c2) t2 = (Inr q, s')"
        "cmd_id c2 = cmd_id c1" "task_id c2 = task_id c1"
        "command_history t2 = command_history t1 @ [c2]"
    by auto
  from c2(1) have qq: "q = Some c2" "t2 = s'" by auto
  have "r = c2"
    using assms ex q qq
    by (auto simp: save_artifact_def handler_execute_def Let_def split: if_splits)
  with c1 c2 qq have hist': "command_history s' = hist @ [c1, r]"
    and ids: "cmd_id c1 = fresh_id" "cmd_id r = fresh_id" "task_id c1 = tid" "task_id r = tid"
    by auto
  have "handlers (ArtifactManager_init base d0)
           = [validate_command, prepare_directories, save_to_disk, record_command,
              validate_command, prepare_directories, save_to_disk, record_command]"
    by (simp add: handlers_ArtifactManager_init default_handlers_def)
  moreover have "length (get_task_artifacts s' tid)
             = length (filter (\<lambda>cmd. task_id cmd = tid) hist) + 2"
    using hist' ids by (simp add: get_task_artifacts_def)
  ultimately show ?thesis using hist' ids by blast
qed

theorem save_artifact_recorded_twice_witness:
  "\<not> isl (fst (save_artifact good_disk 7 0 ''t1'' ''a.txt'' (ContentStr ''hi'') None None
            ((ArtifactManager_init [''artifacts''] [])\<lparr>command_history := [], disk := []\<rparr>)))
   \<and> length (get_task_artifacts
        (snd (save_artifact good_disk 7 0 ''t1'' ''a.txt'' (ContentStr ''hi'') None None
            ((ArtifactManager_init [''artifacts''] [])\<lparr>command_history := [], disk := []\<rparr>))) ''t1'') = 2"
proof -
  let ?X = "save_artifact good_disk 7 0 ''t1'' ''a.txt'' (ContentStr ''hi'') None None
            ((ArtifactManager_init [''artifacts''] [])\<lparr>command_history := [], disk := []\<rparr>)"
  have a: "\<not> isl (fst ?X)"
    by (simp add: save_artifact_def handler_execute_def ArtifactManager_init_def
          ArtifactCommandHandler_init_def setup_default_handlers_def default_handlers_def
          run_handler_def with_status_def good_disk_def get_artifact_path_cmd_def
          truthy_opt_str_def get_content_type_def Let_def)
  then have "?X = (Inr (projr (fst ?X)), snd ?X)"
    by (cases ?X, cases "fst ?X") auto
  from save_artifact_recorded_twice [OF this] a show ?thesis by simp
qed

subsection \<open>Retries of a step that fails with a retryable error\<close>

lemma status_of_update_step:
  "has_step st n \<Longrightarrow> status_of (update_step st n f) n
     = Some (step_status (f (the (map_of (step_states st) n))))"
  by (auto simp: has_step_def status_of_def update_step_def update_conv')

lemma status_of_mark_step_failed:
  "has_step st n \<Longrightarrow> status_of (mark_step_failed st n e) n = Some FAILED"
  by (simp add: mark_step_failed_def status_of_update_step)

lemma try_plugin_retryable:
  assumes ok: "\<forall>k c. \<exists>p c'. resolve_inputs w (name step) k c = (Inr p, c')
                  \<and> \<not> (has_InputModel w (name step) \<and> p = None \<and> \<not> allow_empty_input w (name step))"
      and bad: "\<forall>k p c. \<exists>m c'. invoke w (name step) k p c = (Inl (RetryablePluginError m), c')"
  shows "\<exists>m ex1. try_plugin w step k ex = (Inl (RetryablePluginError m, []), ex1)
           \<and> state ex1 = state ex
           \<and> filter is_retry_event (events ex1)
               = filter is_retry_event (events ex) @ [PluginInvoked (name step) k]"
proof -
  from ok obtain p c1 where
    r: "resolve_inputs w (name step) k (clear_saved_artifacts (current_context ex)) = (Inr p, c1)"
    and chk: "\<not> (has_InputModel w (name step) \<and> p = None \<and> \<not> allow_empty_input w (name step))"
    by blast
  from bad obtain m c2 where
    i: "invoke w (name step) k p c1 = (Inl (RetryablePluginError m), c2)"
    by blast
  show ?thesis
    using r chk i
    by (auto simp: try_plugin_def Let_def report_progress_def emit_def)
qed

lemma retry_trace_last:
  "int a < max_retries \<Longrightarrow> \<not> int a < max_retries - 1
     \<Longrightarrow> retry_trace n a max_retries = [PluginInvoked n a]"
proof -
  assume h: "int a < max_retries" "\<not> int a < max_retries - 1"
  then have "nat max_retries = Suc a" by linarith
  with h show ?thesis by (simp add: retry_trace_def)
qed

lemma retry_trace_step:
  "int a < max_retries - 1
     \<Longrightarrow> retry_trace n a max_retries
         = PluginInvoked n a # Sleep (RETRY_DELAY * real (a + 1)) # retry_trace n (Suc a) max_retries"
proof -
  assume h: "int a < max_retries - 1"
  then have "a < nat max_retries" by linarith
  then have "[a..<nat max_retries] = a # [Suc a..<nat max_retries]"
    by (rule upt_conv_Cons)
  with h show ?thesis by (simp add: retry_trace_def)
qed

lemma run_with_retries_retryable:
  assumes ok: "\<forall>k c. \<exists>p c'. resolve_inputs w (name step) k c = (Inr p, c')
                  \<and> \<not> (has_InputModel w (name step) \<and> p = None \<and> \<not> allow_empty_input w (name step))"
      and bad: "\<forall>k p c. \<exists>m c'. invoke w (name step) k p c = (Inl (RetryablePluginError m), c')"
      and lt: "int a < max_retries"
      and hs: "has_step (state ex) (name step)"
  shows "filter is_retry_event (events (snd (run_with_retries w step a max_retries ex)))
           = filter is_retry_event (events ex) @ retry_trace (name step) a max_retries
         \<and> status_of (state (snd (run_with_retries w step a max_retries ex))) (name step) = Some FAILED"
  using lt hs
proof (induction "nat max_retries - a" arbitrary: a ex)
  case 0
  then show ?case by linarith
next
  case (Suc d)
  from try_plugin_retryable [OF ok bad, of a ex] obtain m ex1 where
    t: "try_plugin w step a ex = (Inl (RetryablePluginError m, []), ex1)"
    and st: "state ex1 = state ex"
    and ev: "filter is_retry_event (events ex1)
               = filter is_retry_event (events ex) @ [PluginInvoked (name step) a]"
    by blast
  show ?case
  proof (cases "int a < max_retries - 1")
    case False
    have e: "run_with_retries w step a max_retries ex
               = fail_step step (RetryablePluginError m) (RetryablePluginError m) [] ex1"
      using t False by (simp add: run_with_retries.simps [of w step a])
    show ?thesis
      using Suc.prems False ev st
      by (auto simp: e fail_step_def report_progress_def Let_def retry_trace_last
                     status_of_mark_step_failed)
  next
    case True
    let ?ex2 = "emit (Sleep (RETRY_DELAY * real (a + 1))) ex1"
    have e: "run_with_retries w step a max_retries ex
               = run_with_retries w step (Suc a) max_retries ?ex2"
      using t True by (simp add: run_with_retries.simps [of w step a])
    have d: "d = nat max_retries - Suc a" using Suc.hyps(2) by linarith
    have lt': "int (Suc a) < max_retries" using True by linarith
    have hs': "has_step (state ?ex2) (name step)"
      using Suc.prems(2) st by (simp add: emit_def)
    from Suc.hyps(1) [OF d lt' hs'] show ?thesis
      using ev by (simp add: e emit_def retry_trace_step [OF True])
  qed
qed

text \<open>
  C5. A step whose plugin raises \<^verbatim>\<open>RetryablePluginError\<close> on every attempt is attempted
  exactly \<open>max_retries\<close> times, hence at most \<open>max_retries\<close> times (the executor always
  passes the default 3): the attempts \<open>0, 1, ...\<close> and the sleeps between them are exactly
  \<open>retry_trace\<close>, that is attempt \<open>k\<close> (the \<open>k + 1\<close>-th) is followed by a sleep of
  \<open>RETRY_DELAY * (k + 1)\<close> seconds with \<open>RETRY_DELAY = 1\<close>, except the last; after the last
  attempt the step is marked FAILED.
\<close>

theorem retryable_error_attempts:
  assumes "\<forall>k c. \<exists>p c'. resolve_inputs w (name step) k c = (Inr p, c')
                  \<and> \<not> (has_InputModel w (name step) \<and> p = None \<and> \<not> allow_empty_input w (name step))"
      and "\<forall>k p c. \<exists>m c'. invoke w (name step) k p c = (Inl (RetryablePluginError m), c')"
      and "1 \<le> max_retries"
      and "has_step (state ex) (name step)"
  shows "filter is_retry_event (events (snd (run_with_retries w step 0 max_retries ex)))
           = filter is_retry_event (events ex) @ retry_trace (name step) 0 max_retries
         \<and> length (filter (\<lambda>e. \<exists>k. e = PluginInvoked (name step) k)
                     (retry_trace (name step) 0 max_retries)) = nat max_retries
         \<and> filter (\<lambda>e. \<exists>d. e = Sleep d) (retry_trace (name step) 0 max_retries)
             = map (\<lambda>k. Sleep (RETRY_DELAY * real k)) [1..<nat max_retries]
         \<and> status_of (state (snd (run_with_retries w step 0 max_retries ex))) (name step)
             = Some FAILED"
proof -
  have lt: "int 0 < max_retries" using assms(3) by simp
  have a: "length (filter (\<lambda>e. \<exists>k. e = PluginInvoked (name step) k)
             (retry_trace (name step) a max_retries)) = nat max_retries - a" for a
  proof (induction "nat max_retries - a" arbitrary: a)
    case 0
    then show ?case by (simp add: retry_trace_def)
  next
    case (Suc d)
    then have "a < nat max_retries" by linarith
    then have u: "[a..<nat max_retries] = a # [Suc a..<nat max_retries]"
      by (rule upt_conv_Cons)
    have "d = nat max_retries - Suc a" using Suc.hyps(2) by linarith
    from Suc.hyps(1) [OF this] show ?case
      using Suc.hyps(2) u by (simp add: retry_trace_def)
  qed
  have b: "filter (\<lambda>e. \<exists>d. e = Sleep d) (retry_trace (name step) a max_retries)
             = map (\<lambda>k. Sleep (RETRY_DELAY * real k)) [Suc a..<nat max_retries]" for a
  proof (induction "nat max_retries - a" arbitrary: a)
    case 0
    then show ?case by (simp add: retry_trace_def)
  next
    case (Suc d)
    then have lt: "a < nat max_retries" by linarith
    then have u: "[a..<nat max_retries] = a # [Suc a..<nat max_retries]"
      by (rule upt_conv_Cons)
    have d: "d = nat max_retries - Suc a" using Suc.hyps(2) by linarith
    show ?case
    proof (cases "int a < max_retries - 1")
      case True
      then have "Suc a < nat max_retries" by linarith
      then have "[Suc a..<nat max_retries] = Suc a # [Suc (Suc a)..<nat max_retries]"
        by (rule upt_conv_Cons)
      with Suc.hyps(1) [OF d] True show ?thesis
        by (simp add: retry_trace_step)
    next
      case False
      with lt have "nat max_retries = Suc a" by linarith
      with False lt show ?thesis by (simp add: retry_trace_def)
    qed
  qed
  from run_with_retries_retryable [OF assms(1) assms(2) lt assms(4)] a [of 0] b [of 0]
  show ?thesis by simp
qed

theorem retryable_error_attempts_witness:
  "filter is_retry_event
     (events (snd (run_with_retries flaky_world (plain_step ''A'' [] True False) 0 3
                     (new_executor 4 False [plain_step ''A'' [] True False]))))
     = [PluginInvoked ''A'' 0, Sleep 1, PluginInvoked ''A'' 1, Sleep 2, PluginInvoked ''A'' 2]
   \<and> status_of (state (snd (run_with_retries flaky_world (plain_step ''A'' [] True False) 0 3
                     (new_executor 4 False [plain_step ''A'' [] True False])))) ''A'' = Some FAILED"
proof -
  let ?s = "plain_step ''A'' [] True False"
  let ?ex = "new_executor 4 False [?s]"
  have 1: "\<forall>k c. \<exists>p c'. resolve_inputs flaky_world (name ?s) k c = (Inr p, c')
             \<and> \<not> (has_InputModel flaky_world (name ?s) \<and> p = None
                    \<and> \<not> allow_empty_input flaky_world (name ?s))"
    by (simp add: flaky_world_def)
  have 2: "\<forall>k p c. \<exists>m c'. invoke flaky_world (name ?s) k p c
             = (Inl (RetryablePluginError m), c')"
    by (simp add: flaky_world_def)
  have 3: "(1::int) \<le> 3" by simp
  have 4: "has_step (state ?ex) (name ?s)"
    by (simp add: new_executor_def DAGState_init_def has_step_def plain_step_def)
  have n: "name ?s = ''A''" by (simp add: plain_step_def)
  have tr: "retry_trace ''A'' 0 3
              = [PluginInvoked ''A'' 0, Sleep 1, PluginInvoked ''A'' 1, Sleep 2, PluginInvoked ''A'' 2]"
    by (simp add: retry_trace_def RETRY_DELAY_def upt_rec)
  have ev: "events ?ex = []" by (simp add: new_executor_def)
  from retryable_error_attempts [OF 1 2 3 4] show ?thesis
    by (simp add: n tr ev)
qed

subsection \<open>Condition-driven loops\<close>

lemma condition_iterate_stop:
  "\<not> int k < max_iterations lc
     \<Longrightarrow> condition_iterate w step lc bd k failed lctx evs = (Inr (failed, k), lctx, evs)"
  by (simp add: condition_iterate.simps [of w step lc bd k])

lemma condition_iterate_false:
  "int k < max_iterations lc \<Longrightarrow> truthy_opt_str (condition lc)
     \<Longrightarrow> \<not> truthy (ctx_get lctx (the (condition lc)) PNone)
     \<Longrightarrow> condition_iterate w step lc bd k failed lctx evs
         = (Inr (failed, k), lctx,
            evs @ [ConditionEvaluated (name step) k (ctx_get lctx (the (condition lc)) PNone)])"
  by (simp add: condition_iterate.simps [of w step lc bd k])

lemma condition_iterate_run:
  assumes "int k < max_iterations lc" "truthy_opt_str (condition lc)"
    and "truthy (ctx_get lctx (the (condition lc)) PNone)"
    and "run_loop_body w bd (iteration_context lc (name step) lctx (PInt (int k)) k) = (r, ic)"
    and "evs1 = evs @ [ConditionEvaluated (name step) k (ctx_get lctx (the (condition lc)) PNone),
                       LoopIteration (name step) k (PInt (int k))]"
    and "L = ctx_update lctx (ctx_data ic)"
  shows "condition_iterate w step lc bd k failed lctx evs =
     (case r of
        None \<Rightarrow> condition_iterate w step lc bd (Suc k) failed L (evs1 @ condition_delay lc (Suc k) L)
      | Some e \<Rightarrow>
          if is_pipeline_suspended e then (Inl e, lctx, evs1)
          else if fail_fast lc then (Inl e, L, evs1)
          else condition_iterate w step lc bd (Suc k) True L (evs1 @ condition_delay lc (Suc k) L))"
  using assms
  by (simp add: condition_iterate.simps [of w step lc bd k] Let_def split: option.splits)

lemma filter_iteration_condition_delay [simp]:
  "filter is_loop_iteration (condition_delay lc k c) = []"
  by (simp add: condition_delay_def)

lemma condition_iterate_bound:
  "length (filter is_loop_iteration (snd (snd (condition_iterate w step lc bd k failed lctx evs))))
     \<le> length (filter is_loop_iteration evs) + nat (max_iterations lc - int k)"
proof (induction "nat (max_iterations lc - int k)" arbitrary: k failed lctx evs)
  case 0
  then have "\<not> int k < max_iterations lc" by linarith
  then show ?case by (simp add: condition_iterate_stop)
next
  case (Suc d)
  then have lt: "int k < max_iterations lc" by linarith
  have d: "d = nat (max_iterations lc - int (Suc k))" using Suc.hyps(2) by linarith
  have k1: "nat (max_iterations lc - int k) = Suc (nat (max_iterations lc - int (Suc k)))"
    using lt by linarith
  note IH = Suc.hyps(1) [OF d]
  show ?case
  proof (cases "truthy_opt_str (condition lc) \<and> truthy (ctx_get lctx (the (condition lc)) PNone)")
    case False
    then show ?thesis
      using lt by (auto simp: condition_iterate.simps [of w step lc bd k])
  next
    case True
    obtain r ic where rb: "run_loop_body w bd
        (iteration_context lc (name step) lctx (PInt (int k)) k) = (r, ic)"
      by (cases "run_loop_body w bd (iteration_context lc (name step) lctx (PInt (int k)) k)")
    let ?evs1 = "evs @ [ConditionEvaluated (name step) k (ctx_get lctx (the (condition lc)) PNone),
                       LoopIteration (name step) k (PInt (int k))]"
    let ?L = "ctx_update lctx (ctx_data ic)"
    note st = condition_iterate_run [OF lt conjunct1 [OF True] conjunct2 [OF True] rb refl refl,
                where failed = failed and evs = evs]
    have c: "length (filter is_loop_iteration (?evs1 @ condition_delay lc (Suc k) ?L))
               = Suc (length (filter is_loop_iteration evs))"
      by simp
    show ?thesis
    proof (cases r)
      case None
      from IH [of failed ?L "?evs1 @ condition_delay lc (Suc k) ?L"] show ?thesis
        unfolding st None k1 c by simp
    next
      case (Some e)
      from IH [of True ?L "?evs1 @ condition_delay lc (Suc k) ?L"] show ?thesis
        unfolding st Some k1 c by simp
    qed
  qed
qed


lemma condition_iterate_refines:
  assumes ok: "\<forall>c. fst (run_loop_body w bd c) = None"
      and cond: "truthy_opt_str (condition lc)"
      and run: "run = (\<lambda>k c. ctx_data (snd (run_loop_body w bd
                          (iteration_context lc (name step) c (PInt (int k)) k))))"
  shows "\<exists>evs'. condition_iterate w step lc bd k failed lctx evs
             = (Inr (failed, fst (spec_condition_loop (the (condition lc)) (max_iterations lc) run k lctx)),
                snd (spec_condition_loop (the (condition lc)) (max_iterations lc) run k lctx), evs')
           \<and> length (filter is_loop_iteration evs')
               = length (filter is_loop_iteration evs)
                 + (fst (spec_condition_loop (the (condition lc)) (max_iterations lc) run k lctx) - k)
           \<and> k \<le> fst (spec_condition_loop (the (condition lc)) (max_iterations lc) run k lctx)"
proof (induction "nat (max_iterations lc - int k)" arbitrary: k lctx evs)
  case 0
  then have n: "\<not> int k < max_iterations lc" by linarith
  then show ?case
    by (simp add: condition_iterate_stop spec_condition_loop.simps [of _ _ _ k])
next
  case (Suc d)
  then have lt: "int k < max_iterations lc" by linarith
  have d: "d = nat (max_iterations lc - int (Suc k))" using Suc.hyps(2) by linarith
  note IH = Suc.hyps(1) [OF d]
  show ?case
  proof (cases "truthy (ctx_get lctx (the (condition lc)) PNone)")
    case False
    then show ?thesis
      using lt cond
      by (simp add: condition_iterate_false spec_condition_loop.simps [of _ _ _ k])
  next
    case True
    obtain r ic where rb: "run_loop_body w bd
        (iteration_context lc (name step) lctx (PInt (int k)) k) = (r, ic)"
      by (cases "run_loop_body w bd (iteration_context lc (name step) lctx (PInt (int k)) k)")
    with ok have r: "r = None" by (metis fst_conv)
    let ?evs1 = "evs @ [ConditionEvaluated (name step) k (ctx_get lctx (the (condition lc)) PNone),
                       LoopIteration (name step) k (PInt (int k))]"
    let ?L = "ctx_update lctx (ctx_data ic)"
    note st = condition_iterate_run [OF lt cond True rb refl refl,
                where failed = failed and evs = evs]
    have sp: "spec_condition_loop (the (condition lc)) (max_iterations lc) run k lctx
                = spec_condition_loop (the (condition lc)) (max_iterations lc) run (Suc k) ?L"
      using lt True rb by (simp add: spec_condition_loop.simps [of _ _ _ k] run)
    from IH [of ?L "?evs1 @ condition_delay lc (Suc k) ?L"] show ?thesis
      unfolding st r sp by auto
  qed
qed

lemma condition_iterate_events_mono:
  "set evs \<subseteq> set (snd (snd (condition_iterate w step lc bd k failed lctx evs)))"
proof (induction "nat (max_iterations lc - int k)" arbitrary: k failed lctx evs)
  case 0
  then have "\<not> int k < max_iterations lc" by linarith
  then show ?case by (simp add: condition_iterate_stop)
next
  case (Suc d)
  then have lt: "int k < max_iterations lc" by linarith
  have d: "d = nat (max_iterations lc - int (Suc k))" using Suc.hyps(2) by linarith
  note IH = Suc.hyps(1) [OF d]
  show ?case
  proof (cases "truthy_opt_str (condition lc) \<and> truthy (ctx_get lctx (the (condition lc)) PNone)")
    case False
    then show ?thesis
      using lt by (auto simp: condition_iterate.simps [of w step lc bd k])
  next
    case True
    obtain r ic where rb: "run_loop_body w bd
        (iteration_context lc (name step) lctx (PInt (int k)) k) = (r, ic)"
      by (cases "run_loop_body w bd (iteration_context lc (name step) lctx (PInt (int k)) k)")
    let ?evs1 = "evs @ [ConditionEvaluated (name step) k (ctx_get lctx (the (condition lc)) PNone),
                       LoopIteration (name step) k (PInt (int k))]"
    let ?L = "ctx_update lctx (ctx_data ic)"
    note st = condition_iterate_run [OF lt conjunct1 [OF True] conjunct2 [OF True] rb refl refl,
                where failed = failed and evs = evs]
    show ?thesis
    proof (cases r)
      case None
      from IH [where failed = failed and lctx = ?L and evs = "?evs1 @ condition_delay lc (Suc k) ?L"] show ?thesis
        unfolding st None by auto
    next
      case (Some e)
      from IH [where failed = True and lctx = ?L and evs = "?evs1 @ condition_delay lc (Suc k) ?L"] show ?thesis
        unfolding st Some by auto
    qed
  qed
qed

lemma status_of_mark_step_completed:
  "has_step st n \<Longrightarrow> status_of (mark_step_completed st n arts) n = Some COMPLETED"
  by (simp add: mark_step_completed_def status_of_update_step)

lemma has_step_status: "status_of st n = Some s \<Longrightarrow> has_step st n"
  by (auto simp: status_of_def has_step_def)

text \<open>
  C7. A condition-driven loop runs at most \<^verbatim>\<open>max_iterations\<close> iterations, whatever the
  bodies do. When no body raises, the loop is the loop of the spec's words
  (\<open>spec_condition_loop\<close>): the body runs while \<^verbatim>\<open>context[condition]\<close> is truthy in the
  loop context into which the results of the iterations so far have been merged, up to
  \<^verbatim>\<open>max_iterations\<close>; the task of the loop step then returns, the final loop data are
  merged into the context, a warning is logged when the cap was reached, and the
  processing of the completed task marks the (RUNNING) loop step COMPLETED.
\<close>

theorem condition_loop_bounded:
  assumes lc: "loop_config step = Some lc" and cond: "truthy_opt_str (condition lc)"
  shows "length (filter is_loop_iteration (events (snd (execute_loop_task w step ex))))
           \<le> length (filter is_loop_iteration (events ex)) + nat (max_iterations lc)
       \<and> ((\<forall>b c. fst (run_loop_body w b c) = None) \<and> create_synthetic_body step \<noteq> [] \<longrightarrow>
            (let (k, lf) = spec_condition_loop (the (condition lc)) (max_iterations lc)
                             (body_data w step lc) 0 (clear_saved_artifacts (current_context ex));
                 (r, ex') = execute_loop_task w step ex
             in r = Inr (None, [])
                \<and> length (filter is_loop_iteration (events ex'))
                    = length (filter is_loop_iteration (events ex)) + k
                \<and> ctx_data (current_context ex') = ctx_data (current_context ex) ++ ctx_data lf
                \<and> (max_iterations lc \<le> int k \<longrightarrow> Warning ''reached max iterations'' \<in> set (events ex'))
                \<and> (status_of (state ex) (name step) = Some RUNNING \<longrightarrow>
                     status_of (state (snd (snd (process_completed_task w (name step, step) cfgs tasks ex))))
                       (name step) = Some COMPLETED)))"
proof
  let ?lctx = "clear_saved_artifacts (current_context ex)"
  let ?bd = "create_synthetic_body step"
  show "length (filter is_loop_iteration (events (snd (execute_loop_task w step ex))))
           \<le> length (filter is_loop_iteration (events ex)) + nat (max_iterations lc)"
  proof (cases "?bd = []")
    case True
    then show ?thesis
      using lc cond
      by (simp add: execute_loop_task_def execute_loop_def execute_condition_based_loop_def Let_def)
  next
    case False
    obtain r lf evs' where ci: "condition_iterate w step lc ?bd 0 False ?lctx (events ex) = (r, lf, evs')"
      by (cases "condition_iterate w step lc ?bd 0 False ?lctx (events ex)") auto
    from condition_iterate_bound [of w step lc ?bd 0 False ?lctx "events ex"] ci
    have b: "length (filter is_loop_iteration evs')
               \<le> length (filter is_loop_iteration (events ex)) + nat (max_iterations lc)"
      by simp
    show ?thesis
      using lc cond False ci b
      by (auto simp: execute_loop_task_def execute_loop_def execute_condition_based_loop_def
            Let_def result_name_warning_def split: sum.splits prod.splits option.splits)
  qed
next
  show "(\<forall>b c. fst (run_loop_body w b c) = None) \<and> create_synthetic_body step \<noteq> [] \<longrightarrow>
            (let (k, lf) = spec_condition_loop (the (condition lc)) (max_iterations lc)
                             (body_data w step lc) 0 (clear_saved_artifacts (current_context ex));
                 (r, ex') = execute_loop_task w step ex
             in r = Inr (None, [])
                \<and> length (filter is_loop_iteration (events ex'))
                    = length (filter is_loop_iteration (events ex)) + k
                \<and> ctx_data (current_context ex') = ctx_data (current_context ex) ++ ctx_data lf
                \<and> (max_iterations lc \<le> int k \<longrightarrow> Warning ''reached max iterations'' \<in> set (events ex'))
                \<and> (status_of (state ex) (name step) = Some RUNNING \<longrightarrow>
                     status_of (state (snd (snd (process_completed_task w (name step, step) cfgs tasks ex))))
                       (name step) = Some COMPLETED))"
  proof
    assume h: "(\<forall>b c. fst (run_loop_body w b c) = None) \<and> create_synthetic_body step \<noteq> []"
    let ?lctx = "clear_saved_artifacts (current_context ex)"
    let ?bd = "create_synthetic_body step"
    let ?sp = "spec_condition_loop (the (condition lc)) (max_iterations lc)
                 (body_data w step lc) 0 ?lctx"
    from h have ok: "\<forall>c. fst (run_loop_body w ?bd c) = None" by blast
    have run: "body_data w step lc = (\<lambda>k c. ctx_data (snd (run_loop_body w ?bd
                          (iteration_context lc (name step) c (PInt (int k)) k))))"
      by (rule ext, rule ext) (simp add: body_data_def)
    from condition_iterate_refines [OF ok cond run, of 0 False ?lctx "events ex"]
    obtain evs' where
      ci: "condition_iterate w step lc ?bd 0 False ?lctx (events ex)
             = (Inr (False, fst ?sp), snd ?sp, evs')"
      and n: "length (filter is_loop_iteration evs')
                = length (filter is_loop_iteration (events ex)) + fst ?sp"
      by auto
    let ?evs2 = "evs' @ (if max_iterations lc \<le> int (fst ?sp)
                         then [Warning ''reached max iterations''] else [])
                      @ result_name_warning lc (snd ?sp)"
    have el: "execute_loop_task w step ex
                = (Inr (None, []),
                   ex\<lparr>current_context := ctx_update (current_context ex) (ctx_data (snd ?sp)),
                      events := ?evs2\<rparr>)"
      using lc cond h ci
      by (simp add: execute_loop_task_def execute_loop_def execute_condition_based_loop_def
            Let_def)
    have st: "status_of (state ex) (name step) = Some RUNNING \<Longrightarrow>
                status_of (state (snd (snd (process_completed_task w (name step, step) cfgs tasks ex))))
                  (name step) = Some COMPLETED"
      using lc el
      by (simp add: process_completed_task_def run_task_def Let_def
            status_of_mark_step_completed has_step_status report_progress_def)
    show "(let (k, lf) = (?sp); (r, ex') = execute_loop_task w step ex
             in r = Inr (None, [])
                \<and> length (filter is_loop_iteration (events ex'))
                    = length (filter is_loop_iteration (events ex)) + k
                \<and> ctx_data (current_context ex') = ctx_data (current_context ex) ++ ctx_data lf
                \<and> (max_iterations lc \<le> int k \<longrightarrow> Warning ''reached max iterations'' \<in> set (events ex'))
                \<and> (status_of (state ex) (name step) = Some RUNNING \<longrightarrow>
                     status_of (state (snd (snd (process_completed_task w (name step, step) cfgs tasks ex))))
                       (name step) = Some COMPLETED))"
      using n st
      by (simp add: el split_beta Let_def ctx_update_def result_name_warning_def)
  qed
qed


theorem condition_loop_bounded_witness:
  "fst (execute_loop_task countdown_world (loop_step ''L'' (condition_loop_config ''go'' 3))
          ((new_executor 4 False [loop_step ''L'' (condition_loop_config ''go'' 3)])
             \<lparr>current_context := ctx_set (ctx_set empty_context ''n'' (PInt 5)) ''go'' (PBool True)\<rparr>))
     = Inr (None, [])
   \<and> length (filter is_loop_iteration (events (snd
        (execute_loop_task countdown_world (loop_step ''L'' (condition_loop_config ''go'' 3))
          ((new_executor 4 False [loop_step ''L'' (condition_loop_config ''go'' 3)])
             \<lparr>current_context := ctx_set (ctx_set empty_context ''n'' (PInt 5)) ''go'' (PBool True)\<rparr>)))))
     = 3
   \<and> Warning ''reached max iterations'' \<in> set (events (snd
        (execute_loop_task countdown_world (loop_step ''L'' (condition_loop_config ''go'' 3))
          ((new_executor 4 False [loop_step ''L'' (condition_loop_config ''go'' 3)])
             \<lparr>current_context := ctx_set (ctx_set empty_context ''n'' (PInt 5)) ''go'' (PBool True)\<rparr>))))"
proof -
  let ?lc = "condition_loop_config ''go'' 3"
  let ?s = "loop_step ''L'' ?lc"
  let ?ex = "(new_executor 4 False [?s])
             \<lparr>current_context := ctx_set (ctx_set empty_context ''n'' (PInt 5)) ''go'' (PBool True)\<rparr>"
  have 1: "loop_config ?s = Some ?lc" by (simp add: loop_step_def)
  have 2: "truthy_opt_str (condition ?lc)"
    by (simp add: condition_loop_config_def truthy_opt_str_def)
  have 3: "(\<forall>b c. fst (run_loop_body countdown_world b c) = None) \<and> create_synthetic_body ?s \<noteq> []"
    by (auto simp: countdown_world_def countdown_body_def create_synthetic_body_def loop_step_def
          condition_loop_config_def split: option.splits pyval.splits)
  have sp: "fst (spec_condition_loop (the (condition ?lc)) (max_iterations ?lc)
                   (body_data countdown_world ?s ?lc) 0 (clear_saved_artifacts (current_context ?ex))) = 3"
    by (simp add: spec_condition_loop.simps body_data_def countdown_world_def countdown_body_def
          condition_loop_config_def loop_step_def new_executor_def empty_context_def ctx_set_def
          ctx_get_def ctx_update_def clear_saved_artifacts_def iteration_context_def
          set_loop_context_def truthy_opt_str_def create_synthetic_body_def Let_def)
  have ev: "events ?ex = []" by (simp add: new_executor_def)
  from condition_loop_bounded [OF 1 2, of countdown_world ?ex] 3 sp ev
  show ?thesis
    by (simp add: split_beta Let_def condition_loop_config_def)
qed

subsection \<open>Collection-driven loops\<close>

lemma iterate_items_trace:
  "\<exists>m. m \<le> length (filter (\<lambda>p. \<not> fst p < start) ps)
       \<and> filter is_loop_iteration (snd (snd (iterate_items w step lc bd n start ps failed lctx evs)))
           = filter is_loop_iteration evs
             @ take m (map (iteration_event (name step)) (filter (\<lambda>p. \<not> fst p < start) ps))
       \<and> (\<not> isl (fst (iterate_items w step lc bd n start ps failed lctx evs))
            \<longrightarrow> m = length (filter (\<lambda>p. \<not> fst p < start) ps))"
proof (induction ps arbitrary: failed lctx evs)
  case Nil
  then show ?case by simp
next
  case (Cons p ps)
  obtain i item where p: "p = (i, item)" by (cases p)
  show ?case
  proof (cases "i < start")
    case True
    with Cons.IH [of failed lctx evs] show ?thesis by (simp add: p)
  next
    case False
    let ?evs1 = "evs @ [LoopIteration (name step) i item]"
    let ?evs2 = "(if delay_set lc \<and> int i < int n - 1
                     then ?evs1 @ [Sleep (delay_seconds lc)] else ?evs1)"
    have f2: "filter is_loop_iteration ?evs2
                = filter is_loop_iteration evs @ [iteration_event (name step) (i, item)]"
      by (simp add: iteration_event_def)
    have f1: "filter is_loop_iteration ?evs1
                = filter is_loop_iteration evs @ [iteration_event (name step) (i, item)]"
      by (simp add: iteration_event_def)
    obtain r ic where rb: "run_loop_body w bd (iteration_context lc (name step) lctx item i) = (r, ic)"
      by (cases "run_loop_body w bd (iteration_context lc (name step) lctx item i)")
    let ?rest = "filter (\<lambda>p. \<not> fst p < start) ps"
    have cont: "\<exists>m. m \<le> length (filter (\<lambda>p. \<not> fst p < start) (p # ps))
       \<and> filter is_loop_iteration (snd (snd (iterate_items w step lc bd n start ps f' l' ?evs2)))
           = filter is_loop_iteration evs
             @ take m (map (iteration_event (name step)) (filter (\<lambda>p. \<not> fst p < start) (p # ps)))
       \<and> (\<not> isl (fst (iterate_items w step lc bd n start ps f' l' ?evs2))
            \<longrightarrow> m = length (filter (\<lambda>p. \<not> fst p < start) (p # ps)))" for f' l'
    proof -
      from Cons.IH [of f' l' ?evs2] obtain m where
        m: "m \<le> length ?rest"
           "filter is_loop_iteration (snd (snd (iterate_items w step lc bd n start ps f' l' ?evs2)))
              = filter is_loop_iteration ?evs2 @ take m (map (iteration_event (name step)) ?rest)"
           "\<not> isl (fst (iterate_items w step lc bd n start ps f' l' ?evs2)) \<longrightarrow> m = length ?rest"
        by blast
      show ?thesis
        apply (rule exI [of _ "Suc m"])
        using m False f2 by (simp add: p)
    qed
    have stop: "\<exists>m. m \<le> length (filter (\<lambda>p. \<not> fst p < start) (p # ps))
       \<and> filter is_loop_iteration ?evs1
           = filter is_loop_iteration evs
             @ take m (map (iteration_event (name step)) (filter (\<lambda>p. \<not> fst p < start) (p # ps)))"
      apply (rule exI [of _ "Suc 0"])
      using False by (simp add: p iteration_event_def)
    show ?thesis
    proof (cases r)
      case None
      then show ?thesis
        using cont [of failed "ctx_update lctx (ctx_data ic)"] rb False
        by (simp add: p Let_def)
    next
      case (Some e)
      show ?thesis
      proof (cases "is_pipeline_suspended e \<or> fail_fast lc")
        case True
        then show ?thesis
          using stop rb False Some by (auto simp: p Let_def)
      next
        case nf: False
        then show ?thesis
          using cont [of True lctx] rb False Some
          by (simp add: p Let_def)
      qed
    qed
  qed
qed


lemma iterate_items_ok:
  "\<forall>c. fst (run_loop_body w bd c) = None
     \<Longrightarrow> fst (iterate_items w step lc bd n start ps failed lctx evs) = Inr failed"
proof (induction ps arbitrary: failed lctx evs)
  case Nil
  then show ?case by simp
next
  case (Cons p ps)
  obtain i item where p: "p = (i, item)" by (cases p)
  obtain r ic where rb: "run_loop_body w bd (iteration_context lc (name step) lctx item i) = (r, ic)"
    by (cases "run_loop_body w bd (iteration_context lc (name step) lctx item i)")
  with Cons.prems have "r = None" by (metis fst_conv)
  with Cons rb show ?case by (simp add: p Let_def)
qed

lemma collection_loop_unfold:
  assumes lc: "loop_config step = Some lc" and nocond: "\<not> truthy_opt_str (condition lc)"
      and coll: "truthy_opt_str (collection lc)"
      and items: "ctx_data (current_context ex) (the (collection lc)) = Some (PList xs)"
      and ne: "xs \<noteq> []" "create_synthetic_body step \<noteq> []"
      and nr: "loop_iteration_index (current_context ex) = None"
      and it: "iterate_items w step lc (create_synthetic_body step) (length xs) 0
                 (zip [0..<length xs] xs) False (clear_saved_artifacts (current_context ex)) (events ex)
               = (r, lf, evs')"
  shows "filter is_loop_iteration (events (snd (execute_loop_task w step ex)))
           = filter is_loop_iteration evs'
         \<and> (fst (execute_loop_task w step ex) = Inr (None, [])) = (r = Inr False)"
  using assms
  by (cases r)
     (auto simp: execute_loop_task_def execute_loop_def execute_collection_or_count_loop_def
        items_of_def ctx_get_def clear_saved_artifacts_def Let_def result_name_warning_def
        split: option.splits)

text \<open>
  C8 (as amended). For a collection-driven loop step (a collection key set, no condition)
  whose \<^verbatim>\<open>context[collection]\<close> is a list \<open>xs\<close>: if \<open>xs\<close> is empty and no positive
  \<^verbatim>\<open>count\<close> is set, the task of the loop step returns with no iteration run, and the
  processing of the completed task marks the (RUNNING) step COMPLETED; if \<open>xs\<close> is not
  empty, the step has an executable body and the loop is not being resumed, the iterations
  run are an initial segment of the enumerated elements of \<open>xs\<close> in order, all of them when
  the task returns, and the task returns when no body raises.
\<close>

theorem collection_loop_in_order:
  assumes lc: "loop_config step = Some lc" and nocond: "\<not> truthy_opt_str (condition lc)"
      and coll: "truthy_opt_str (collection lc)"
      and items: "ctx_data (current_context ex) (the (collection lc)) = Some (PList xs)"
  shows "(xs = [] \<and> (count lc = None \<or> the (count lc) \<le> 0) \<longrightarrow>
            fst (execute_loop_task w step ex) = Inr (None, [])
          \<and> filter is_loop_iteration (events (snd (execute_loop_task w step ex)))
              = filter is_loop_iteration (events ex)
          \<and> (status_of (state ex) (name step) = Some RUNNING \<longrightarrow>
               status_of (state (snd (snd (process_completed_task w (name step, step) cfgs tasks ex))))
                 (name step) = Some COMPLETED))
       \<and> (xs \<noteq> [] \<and> create_synthetic_body step \<noteq> [] \<and> loop_iteration_index (current_context ex) = None \<longrightarrow>
            (\<exists>m\<le>length xs.
               filter is_loop_iteration (events (snd (execute_loop_task w step ex)))
                 = filter is_loop_iteration (events ex)
                   @ take m (map (iteration_event (name step)) (zip [0..<length xs] xs))
               \<and> (fst (execute_loop_task w step ex) = Inr (None, []) \<longrightarrow> m = length xs)
               \<and> ((\<forall>b c. fst (run_loop_body w b c) = None) \<longrightarrow>
                     fst (execute_loop_task w step ex) = Inr (None, []))))"
proof (intro conjI impI)
  assume e: "xs = [] \<and> (count lc = None \<or> the (count lc) \<le> 0)"
  have el: "execute_loop_task w step ex
              = (Inr (None, []),
                 ex\<lparr>current_context := ctx_update (current_context ex)
                                          (ctx_data (clear_saved_artifacts (current_context ex))),
                    events := events ex @ [Warning ''No items to iterate over'']\<rparr>)"
    using lc nocond coll items e
    by (auto simp: execute_loop_task_def execute_loop_def execute_collection_or_count_loop_def
          items_of_def ctx_get_def Let_def)
  show "fst (execute_loop_task w step ex) = Inr (None, [])" by (simp add: el)
  show "filter is_loop_iteration (events (snd (execute_loop_task w step ex)))
          = filter is_loop_iteration (events ex)"
    by (simp add: el)
  assume "status_of (state ex) (name step) = Some RUNNING"
  then show "status_of (state (snd (snd (process_completed_task w (name step, step) cfgs tasks ex))))
               (name step) = Some COMPLETED"
    using lc el
    by (simp add: process_completed_task_def run_task_def Let_def
          status_of_mark_step_completed has_step_status report_progress_def)
next
  assume h: "xs \<noteq> [] \<and> create_synthetic_body step \<noteq> [] \<and> loop_iteration_index (current_context ex) = None"
  let ?bd = "create_synthetic_body step"
  let ?lctx = "clear_saved_artifacts (current_context ex)"
  let ?ps = "zip [0..<length xs] xs"
  obtain r lf evs' where it: "iterate_items w step lc ?bd (length xs) 0 ?ps False ?lctx (events ex)
                                = (r, lf, evs')"
    by (cases "iterate_items w step lc ?bd (length xs) 0 ?ps False ?lctx (events ex)") auto
  from h have ne: "xs \<noteq> []" "?bd \<noteq> []" and nr: "loop_iteration_index (current_context ex) = None"
    by auto
  note un = collection_loop_unfold [OF lc nocond coll items ne nr it]
  from iterate_items_trace [of 0 ?ps w step lc ?bd "length xs" False ?lctx "events ex"] it
  obtain m where m: "m \<le> length ?ps"
      "filter is_loop_iteration evs'
         = filter is_loop_iteration (events ex) @ take m (map (iteration_event (name step)) ?ps)"
      "\<not> isl r \<longrightarrow> m = length ?ps"
    by auto
  have ok: "(\<forall>b c. fst (run_loop_body w b c) = None) \<Longrightarrow> r = Inr False"
  proof -
    assume "\<forall>b c. fst (run_loop_body w b c) = None"
    then have "\<forall>c. fst (run_loop_body w ?bd c) = None" by blast
    from iterate_items_ok [OF this, of step lc "length xs" 0 ?ps False ?lctx "events ex"] it
    show ?thesis by simp
  qed
  show "\<exists>m\<le>length xs.
               filter is_loop_iteration (events (snd (execute_loop_task w step ex)))
                 = filter is_loop_iteration (events ex)
                   @ take m (map (iteration_event (name step)) (zip [0..<length xs] xs))
               \<and> (fst (execute_loop_task w step ex) = Inr (None, []) \<longrightarrow> m = length xs)
               \<and> ((\<forall>b c. fst (run_loop_body w b c) = None) \<longrightarrow>
                     fst (execute_loop_task w step ex) = Inr (None, []))"
    apply (rule exI [of _ m])
    using m un ok by auto
qed


theorem collection_loop_in_order_witness:
  "fst (execute_loop_task flaky_world (loop_step ''L'' (collection_loop_config ''items'' None))
          ((new_executor 4 False [loop_step ''L'' (collection_loop_config ''items'' None)])
             \<lparr>current_context := ctx_set empty_context ''items'' (PList [])\<rparr>)) = Inr (None, [])
   \<and> filter is_loop_iteration (events (snd
        (execute_loop_task flaky_world (loop_step ''L'' (collection_loop_config ''items'' None))
          ((new_executor 4 False [loop_step ''L'' (collection_loop_config ''items'' None)])
             \<lparr>current_context := ctx_set empty_context ''items'' (PList [])\<rparr>)))) = []
   \<and> filter is_loop_iteration (events (snd
        (execute_loop_task flaky_world (loop_step ''L'' (collection_loop_config ''items'' None))
          ((new_executor 4 False [loop_step ''L'' (collection_loop_config ''items'' None)])
             \<lparr>current_context := ctx_set empty_context ''items'' (PList [PStr ''a'', PStr ''b'', PStr ''c''])\<rparr>))))
     = [LoopIteration ''L'' 0 (PStr ''a''), LoopIteration ''L'' 1 (PStr ''b''),
        LoopIteration ''L'' 2 (PStr ''c'')]"
proof -
  let ?lc = "collection_loop_config ''items'' None"
  let ?s = "loop_step ''L'' ?lc"
  let ?ex0 = "(new_executor 4 False [?s])\<lparr>current_context := ctx_set empty_context ''items'' (PList [])\<rparr>"
  let ?xs = "[PStr ''a'', PStr ''b'', PStr ''c'']"
  let ?ex3 = "(new_executor 4 False [?s])\<lparr>current_context := ctx_set empty_context ''items'' (PList ?xs)\<rparr>"
  have 1: "loop_config ?s = Some ?lc" by (simp add: loop_step_def)
  have 2: "\<not> truthy_opt_str (condition ?lc)"
    by (simp add: collection_loop_config_def truthy_opt_str_def)
  have 3: "truthy_opt_str (collection ?lc)"
    by (simp add: collection_loop_config_def truthy_opt_str_def)
  have 40: "ctx_data (current_context ?ex0) (the (collection ?lc)) = Some (PList [])"
    by (simp add: collection_loop_config_def ctx_set_def)
  have 43: "ctx_data (current_context ?ex3) (the (collection ?lc)) = Some (PList ?xs)"
    by (simp add: collection_loop_config_def ctx_set_def)
  have c: "count ?lc = None" by (simp add: collection_loop_config_def)
  have b: "create_synthetic_body ?s \<noteq> []"
    by (simp add: create_synthetic_body_def loop_step_def collection_loop_config_def)
  have nr: "loop_iteration_index (current_context ?ex3) = None"
    by (simp add: ctx_set_def empty_context_def)
  have ok: "\<forall>b c. fst (run_loop_body flaky_world b c) = None"
    by (simp add: flaky_world_def)
  have n: "name ?s = ''L''" by (simp add: loop_step_def)
  have z: "zip [0..<length ?xs] ?xs = [(0, PStr ''a''), (1, PStr ''b''), (2, PStr ''c'')]"
    by (simp add: upt_rec)
  have ev: "events ?ex0 = []" "events ?ex3 = []" by (simp_all add: new_executor_def)
  from collection_loop_in_order [OF 1 2 3 40, of flaky_world] c ev
  have A: "fst (execute_loop_task flaky_world ?s ?ex0) = Inr (None, [])
           \<and> filter is_loop_iteration (events (snd (execute_loop_task flaky_world ?s ?ex0))) = []"
    by simp
  from collection_loop_in_order [OF 1 2 3 43, of flaky_world] b nr ok
  obtain m where m: "m \<le> length ?xs"
     "filter is_loop_iteration (events (snd (execute_loop_task flaky_world ?s ?ex3)))
        = filter is_loop_iteration (events ?ex3)
          @ take m (map (iteration_event (name ?s)) (zip [0..<length ?xs] ?xs))"
     "m = length ?xs"
    by auto
  from m(2) have B: "filter is_loop_iteration (events (snd (execute_loop_task flaky_world ?s ?ex3)))
                       = [LoopIteration ''L'' 0 (PStr ''a''), LoopIteration ''L'' 1 (PStr ''b''),
                          LoopIteration ''L'' 2 (PStr ''c'')]"
    unfolding m(3) z n ev by (simp add: iteration_event_def)
  from A B show ?thesis by simp
qed

text \<open>
  The claim C8 as stated fails when the loop also sets a count: the empty sequence under
  the collection key makes \<^verbatim>\<open>_execute_collection_or_count_loop\<close> fall back to
  \<^verbatim>\<open>range(count)\<close>, and two iterations run.
\<close>

theorem empty_collection_with_count_counterexample:
  "ctx_data (ctx_set empty_context ''items'' (PList [])) ''items'' = Some (PList [])
   \<and> filter is_loop_iteration (events (snd
        (execute_loop_task flaky_world (loop_step ''L'' (collection_loop_config ''items'' (Some 2)))
          ((new_executor 4 False [loop_step ''L'' (collection_loop_config ''items'' (Some 2))])
             \<lparr>current_context := ctx_set empty_context ''items'' (PList [])\<rparr>))))
     = [LoopIteration ''L'' 0 (PInt 0), LoopIteration ''L'' 1 (PInt 1)]"
  by (simp add: execute_loop_task_def execute_loop_def execute_collection_or_count_loop_def
        items_of_def ctx_get_def ctx_set_def ctx_update_def clear_saved_artifacts_def
        loop_step_def collection_loop_config_def new_executor_def empty_context_def
        flaky_world_def truthy_opt_str_def create_synthetic_body_def iteration_context_def
        set_loop_context_def delay_set_def result_name_warning_def Let_def upt_rec)

subsection \<open>Failed steps and their dependents\<close>

lemmas exec_defs =
  executeDAG_def run_phases_def prepare_state_def close_execution_def
  execute_normal_phase_def execute_finally_phase_def normal_phase.simps finally_loop.simps
  normal_round_def finally_round_def normal_ready_def finally_ready_def normal_stall_def
  pick_done_def process_completed_task_def run_task_def create_step_task_def
  run_with_retries.simps try_plugin_def fail_step_def fail_processed_def report_progress_def emit_def
  create_suspension_checkpoint_def first_suspend_info_def failed_finally_errors_def
  is_step_ready_def is_step_ready_for_finally_def terminal_status_def
  parsed_dependencies_def parse_dependency_def
  DAGState_init_def StepState_init_def status_of_def has_step_def update_step_def
  steps_with_status_def running_steps_def failed_steps_def get_remaining_steps_def
  mark_step_running_def mark_step_completed_def mark_step_failed_def mark_step_skipped_def
  mark_step_suspended_def finish_execution_def
  SuspendContext_init_def request_suspend_def
  clear_saved_artifacts_def empty_context_def new_executor_def plain_step_def
  scripted_world_def flaky_world_def Let_def













subsection \<open>The finally phase, the aggregate error and the suspension checkpoint\<close>













subsection \<open>The bound on the steps that run concurrently\<close>






subsection \<open>Child contexts\<close>

lemma spawn_child_cases:
  assumes "spawn_child parent overrides h = Inr (child, h')"
  shows "\<exists>b m. ec_extras parent = DictRef b \<and> dicts h b = Some m
           \<and> h' = h\<lparr>dicts := (dicts h)(next_dict h \<mapsto> m), next_dict := Suc (next_dict h)\<rparr>
           \<and> ec_pipeline_context child
               = override overrides ''_pipeline_context'' (ec_pipeline_context parent)
           \<and> ec_extras child = override overrides ''extras'' (DictRef (next_dict h))
           \<and> (\<forall>f\<in>set dataclass_fields. f \<noteq> ''extras'' \<longrightarrow>
                 get_field child f = override overrides f (get_field parent f))"
proof -
  from assms obtain b m where e: "ec_extras parent = DictRef b" "dicts h b = Some m"
    by (auto simp: spawn_child_def split: fval.splits option.splits)
  from assms e have c: "child =
                 \<lparr>ec_pipeline_context = override overrides ''_pipeline_context'' (ec_pipeline_context parent),
                  ec_checkpoint_id = override overrides ''checkpoint_id'' (ec_checkpoint_id parent),
                  ec_resume_data = override overrides ''resume_data'' (ec_resume_data parent),
                  ec_is_resume = override overrides ''is_resume'' (ec_is_resume parent),
                  ec_checkpoint_manager = override overrides ''checkpoint_manager'' (ec_checkpoint_manager parent),
                  ec_loop_iteration = override overrides ''loop_iteration'' (ec_loop_iteration parent),
                  ec_step_name = override overrides ''step_name'' (ec_step_name parent),
                  ec_pipeline_tools = override overrides ''pipeline_tools'' (ec_pipeline_tools parent),
                  ec_pipeline_configuration =
                    override overrides ''pipeline_configuration'' (ec_pipeline_configuration parent),
                  ec_execution_config = override overrides ''execution_config'' (ec_execution_config parent),
                  ec_agent_spec = override overrides ''agent_spec'' (ec_agent_spec parent),
                  ec_session_id = override overrides ''session_id'' (ec_session_id parent),
                  ec_extras = override overrides ''extras'' (DictRef (next_dict h)),
                  ec_pipeline_config = override overrides ''pipeline_config'' (ec_pipeline_config parent)\<rparr>"
    and h': "h' = h\<lparr>dicts := (dicts h)(next_dict h \<mapsto> m), next_dict := Suc (next_dict h)\<rparr>"
    by (auto simp: spawn_child_def Let_def split: if_splits)
  have f: "\<forall>f\<in>set dataclass_fields. f \<noteq> ''extras'' \<longrightarrow>
                 get_field child f = override overrides f (get_field parent f)"
    unfolding c by (simp add: dataclass_fields_def get_field_def)
  from e c h' f show ?thesis by simp
qed

text \<open>
  C9 (as amended). A child spawned without an override of \<^verbatim>\<open>_pipeline_context\<close> wraps the
  same \<^verbatim>\<open>PipelineContext\<close> object as its parent. A key that is not a declared field,
  assigned through the child by the dict-like interface, is stored in that shared object,
  and the parent reads the assigned value under the key unless an entry of the parent's
  extras has the same key. The overrides are local: each field of the child other than the
  extras is the override given or the parent's value, a declared field assigned through
  the child changes the child only, spawning changes no \<^verbatim>\<open>PipelineContext\<close> object, and
  the parent's extras stay as they were. Without an override of the extras the child has a
  copy of the parent's extras, and what is stored in the copy does not reach the parent.
\<close>

theorem spawn_child_shares_data:
  assumes sp: "spawn_child parent overrides h = Inr (child, h')"
      and fresh: "dicts h (next_dict h) = None"
      and no: "overrides ''_pipeline_context'' = None"
      and k: "key \<notin> set dataclass_fields"
      and si: "setitem child key v h' = Inr (child', h'')"
  shows "ec_pipeline_context child = ec_pipeline_context parent
       \<and> (\<exists>a pc. wrapped_of parent h'' = Inr (a, pc) \<and> ctx_data pc key = Some v)
       \<and> ((\<exists>m. extras_of parent h'' = Inr m \<and> m key = None) \<longrightarrow>
             getitem parent key h'' = Inr (Val v))
       \<and> (\<forall>f\<in>set dataclass_fields. f \<noteq> ''extras'' \<longrightarrow>
             get_field child f = override overrides f (get_field parent f))
       \<and> (\<forall>f\<in>set dataclass_fields. setitem child f v h' = Inr (set_field child f (Val v), h'))
       \<and> contexts h' = contexts h
       \<and> extras_of parent h'' = extras_of parent h
       \<and> (overrides ''extras'' = None \<longrightarrow>
             ec_extras child = DictRef (next_dict h)
             \<and> extras_of child h' = extras_of parent h
             \<and> (\<forall>attr x c2 h2. attr \<notin> set dataclass_fields \<and> setattr child attr x h' = Inr (c2, h2)
                   \<longrightarrow> extras_of parent h2 = extras_of parent h \<and> contexts h2 = contexts h))"
proof -
  from spawn_child_cases [OF sp] obtain b m where
    e: "ec_extras parent = DictRef b" "dicts h b = Some m"
    and h': "h' = h\<lparr>dicts := (dicts h)(next_dict h \<mapsto> m), next_dict := Suc (next_dict h)\<rparr>"
    and pc: "ec_pipeline_context child
               = override overrides ''_pipeline_context'' (ec_pipeline_context parent)"
    and ex: "ec_extras child = override overrides ''extras'' (DictRef (next_dict h))"
    and fl: "\<forall>f\<in>set dataclass_fields. f \<noteq> ''extras'' \<longrightarrow>
                 get_field child f = override overrides f (get_field parent f)"
    by blast
  from e fresh have bn: "b \<noteq> next_dict h" by auto
  from pc no have sh: "ec_pipeline_context child = ec_pipeline_context parent"
    by (simp add: override_def)
  from si k obtain a p where w: "wrapped_of child h' = Inr (a, p)"
    and h'': "h'' = h'\<lparr>contexts := (contexts h')(a \<mapsto> ctx_set p key v)\<rparr>"
    by (auto simp: setitem_def split: sum.splits)
  from w sh have wp: "wrapped_of parent h'' = Inr (a, ctx_set p key v)"
    by (auto simp: wrapped_of_def h'' split: fval.splits pyval.splits option.splits)
  have 2: "\<exists>a pc. wrapped_of parent h'' = Inr (a, pc) \<and> ctx_data pc key = Some v"
    using wp by (simp add: ctx_set_def)
  have 3: "(\<exists>m. extras_of parent h'' = Inr m \<and> m key = None) \<longrightarrow>
             getitem parent key h'' = Inr (Val v)"
    using k wp by (auto simp: getitem_def ctx_set_def)
  have 5: "\<forall>f\<in>set dataclass_fields. setitem child f v h' = Inr (set_field child f (Val v), h')"
    by (simp add: setitem_def)
  have 6: "contexts h' = contexts h" by (simp add: h')
  have 7: "extras_of parent h'' = extras_of parent h"
    using e bn by (simp add: extras_of_def h'' h')
  have 8: "overrides ''extras'' = None \<longrightarrow>
             ec_extras child = DictRef (next_dict h)
             \<and> extras_of child h' = extras_of parent h
             \<and> (\<forall>attr x c2 h2. attr \<notin> set dataclass_fields \<and> setattr child attr x h' = Inr (c2, h2)
                   \<longrightarrow> extras_of parent h2 = extras_of parent h \<and> contexts h2 = contexts h)"
  proof
    assume "overrides ''extras'' = None"
    with ex have ce: "ec_extras child = DictRef (next_dict h)" by (simp add: override_def)
    have a: "extras_of child h' = extras_of parent h"
      using ce e by (simp add: extras_of_def h')
    have b: "\<forall>attr x c2 h2. attr \<notin> set dataclass_fields \<and> setattr child attr x h' = Inr (c2, h2)
                   \<longrightarrow> extras_of parent h2 = extras_of parent h \<and> contexts h2 = contexts h"
      using ce e bn by (auto simp: setattr_def extras_of_def h')
    from ce a b show "ec_extras child = DictRef (next_dict h)
             \<and> extras_of child h' = extras_of parent h
             \<and> (\<forall>attr x c2 h2. attr \<notin> set dataclass_fields \<and> setattr child attr x h' = Inr (c2, h2)
                   \<longrightarrow> extras_of parent h2 = extras_of parent h \<and> contexts h2 = contexts h)"
      by blast
  qed
  from sh 2 3 fl 5 6 7 8 show ?thesis by blast
qed

lemmas context_defs =
  parent_reads_after_child_assigns_def spawn_child_def setitem_def getitem_def setattr_def
  extras_of_def wrapped_of_def override_def dataclass_fields_def get_field_def set_field_def
  parent_context_def parent_heap_def ctx_set_def empty_context_def Let_def

theorem spawn_child_shares_data_witness:
  "parent_reads_after_child_assigns parent_context Map.empty ''k'' (PInt 2) parent_heap
     = Inr (Val (PInt 2))"
proof -
  obtain child h' where sp: "spawn_child parent_context Map.empty parent_heap = Inr (child, h')"
    by (simp add: context_defs)
  obtain child' h'' where si: "setitem child ''k'' (PInt 2) h' = Inr (child', h'')"
    using sp by (auto simp: context_defs)
  have fresh: "dicts parent_heap (next_dict parent_heap) = None" by (simp add: parent_heap_def)
  have k: "''k'' \<notin> set dataclass_fields" by (simp add: dataclass_fields_def)
  have m: "\<exists>m. extras_of parent_context h'' = Inr m \<and> m ''k'' = None"
    using sp si by (auto simp: context_defs)
  from spawn_child_shares_data [OF sp fresh _ k si] m
  have "getitem parent_context ''k'' h'' = Inr (Val (PInt 2))" by simp
  with sp si show ?thesis by (simp add: parent_reads_after_child_assigns_def)
qed

text \<open>
  The claim C9 as stated fails in two ways. A key that the parent's extras hold is read
  from the extras: after the child has assigned 2 under \<^verbatim>\<open>x\<close>, the parent still reads 1.
  And a child spawned with an override of \<^verbatim>\<open>_pipeline_context\<close> does not share the data
  map: what it assigns under \<^verbatim>\<open>k\<close> is not in the parent's map.
\<close>

theorem parent_extras_shadow_counterexample:
  "parent_reads_after_child_assigns parent_context Map.empty ''x'' (PInt 2) parent_heap
     = Inr (Val (PInt 1))
   \<and> parent_reads_after_child_assigns parent_context [''_pipeline_context'' \<mapsto> CtxRef 1]
       ''k'' (PInt 2) parent_heap
     = Inl (OtherException ''KeyError'')"
  by (simp add: context_defs)

subsection \<open>Resuming the suspended steps\<close>

lemma resume_data_key_not_field: "n @ ''_resume_data'' \<notin> set dataclass_fields"
proof
  assume a: "n @ ''_resume_data'' \<in> set dataclass_fields"
  then obtain f where f: "f \<in> set dataclass_fields" "rev f = rev ''_resume_data'' @ rev n"
    by (metis rev_append)
  then show False by (auto simp: dataclass_fields_def)
qed

lemma status_of_update_step_same:
  "has_step st n \<Longrightarrow> status_of (update_step st n f) n = map_option (step_status \<circ> f) (map_of (step_states st) n)"
  by (auto simp: has_step_def status_of_def update_step_def update_conv' split: option.splits)

lemma error_of_update_step_same:
  "has_step st n \<Longrightarrow> error_of (update_step st n f) n
     = (case map_of (step_states st) n of None \<Rightarrow> None | Some ss \<Rightarrow> step_error (f ss))"
  by (auto simp: has_step_def error_of_def update_step_def update_conv' split: option.splits)

lemma has_step_update_step2: "has_step (update_step st n f) m = has_step st m"
  by (auto simp: has_step_def update_step_def update_conv' split: option.splits)

lemma completed_from_suspension:
  assumes "has_step st n"
  shows "status_of (mark_step_completed_from_suspension st n True) n = Some COMPLETED"
    and "error_of (mark_step_completed_from_suspension st n True) n = None"
  using assms
  by (auto simp: mark_step_completed_from_suspension_def status_of_update_step_same
        error_of_update_step_same has_step_def split: option.splits)

lemma resumed_pending:
  assumes "has_step st n"
  shows "status_of (mark_step_resumed (if error_of st n \<noteq> None then clear_step_error st n else st) n) n
           = Some PENDING"
    and "error_of (mark_step_resumed (if error_of st n \<noteq> None then clear_step_error st n else st) n) n
           = None"
  using assms
  by (auto simp: mark_step_resumed_def clear_step_error_def has_step_def error_of_def
        status_of_def update_step_def update_conv' split: option.splits)

lemma contains_key:
  assumes "extras_of c h = Inr m" and "wrapped_of c h = Inr (a, pc)"
  shows "contains c (n @ ''_resume_data'') h
           = Inr (m (n @ ''_resume_data'') \<noteq> None \<or> ctx_data pc (n @ ''_resume_data'') \<noteq> None)"
  using assms resume_data_key_not_field [of n] by (simp add: contains_def)

lemma getitem_key:
  assumes "extras_of c h = Inr m" and "wrapped_of c h = Inr (a, pc)"
  shows "getitem c (n @ ''_resume_data'') h
           = (case m (n @ ''_resume_data'') of
                Some v \<Rightarrow> Inr (Val v)
              | None \<Rightarrow> (case ctx_data pc (n @ ''_resume_data'') of
                           None \<Rightarrow> Inl (OtherException ''KeyError'')
                         | Some v \<Rightarrow> Inr (Val v)))"
  using assms resume_data_key_not_field [of n] by (simp add: getitem_def split: option.splits)

lemma contains_resume_data:
  assumes "extras_of c h = Inr m" and "wrapped_of c h = Inr (a, pc)"
  shows "contains c (n @ ''_resume_data'') h = Inr (resume_data_for c h n \<noteq> None)"
    and "resume_data_for c h n = Some x \<Longrightarrow> getitem c (n @ ''_resume_data'') h = Inr x"
proof -
  note k = contains_key [OF assms, of n] getitem_key [OF assms, of n]
  show "contains c (n @ ''_resume_data'') h = Inr (resume_data_for c h n \<noteq> None)"
    by (cases "m (n @ ''_resume_data'')"; cases "ctx_data pc (n @ ''_resume_data'')")
       (simp_all add: resume_data_for_def k)
  show "resume_data_for c h n = Some x \<Longrightarrow> getitem c (n @ ''_resume_data'') h = Inr x"
    by (cases "m (n @ ''_resume_data'')"; cases "ctx_data pc (n @ ''_resume_data'')")
       (simp_all add: resume_data_for_def k)
qed

lemma setitem_stored:
  assumes "wrapped_of c h = Inr (a, pc)" and "n \<notin> set dataclass_fields"
  shows "\<exists>h'. setitem c n v h = Inr (c, h') \<and> stored_output c h' n = Some v"
  using assms
  by (auto simp: setitem_def stored_output_def wrapped_of_def ctx_set_def
        split: fval.splits pyval.splits option.splits)

lemma resume_step_cases:
  assumes "has_step (rs_state rs) n"
    and "n \<notin> set dataclass_fields"
    and "extras_of (rs_context rs) (rs_heap rs) = Inr m"
    and "wrapped_of (rs_context rs) (rs_heap rs) = Inr (a, pc)"
  shows "(resume_data_for (rs_context rs) (rs_heap rs) n = None
            \<longrightarrow> resume_step w n rs = Inr rs)
       \<and> (\<forall>x. resume_data_for (rs_context rs) (rs_heap rs) n = Some x \<and> \<not> is_completion x
            \<longrightarrow> (\<exists>rs'. resume_step w n rs = Inr rs'
                     \<and> status_of (rs_state rs') n = Some PENDING
                     \<and> error_of (rs_state rs') n = None
                     \<and> rs_context rs' = rs_context rs \<and> rs_heap rs' = rs_heap rs))
       \<and> (\<forall>x. resume_data_for (rs_context rs) (rs_heap rs) n = Some x \<and> is_completion x
                \<and> collected_data_of x = None
            \<longrightarrow> (\<exists>rs'. resume_step w n rs = Inr rs'
                     \<and> status_of (rs_state rs') n = Some COMPLETED
                     \<and> error_of (rs_state rs') n = None
                     \<and> rs_context rs' = rs_context rs \<and> rs_heap rs' = rs_heap rs))
       \<and> (\<forall>x collected_data step_output.
              resume_data_for (rs_context rs) (rs_heap rs) n = Some x \<and> is_completion x
                \<and> collected_data_of x = Some collected_data
                \<and> synthesize_output w collected_data = Inr step_output
            \<longrightarrow> (\<exists>rs'. resume_step w n rs = Inr rs'
                     \<and> status_of (rs_state rs') n = Some COMPLETED
                     \<and> error_of (rs_state rs') n = None
                     \<and> stored_output (rs_context rs') (rs_heap rs') n = Some step_output))"
proof -
  note c = contains_resume_data [OF assms(3) assms(4), of n]
  have none: "resume_data_for (rs_context rs) (rs_heap rs) n = None
                \<Longrightarrow> resume_step w n rs = Inr rs"
    by (simp add: resume_step_def c(1))
  have pend: "\<exists>rs'. resume_step w n rs = Inr rs'
                     \<and> status_of (rs_state rs') n = Some PENDING
                     \<and> error_of (rs_state rs') n = None
                     \<and> rs_context rs' = rs_context rs \<and> rs_heap rs' = rs_heap rs"
    if "resume_data_for (rs_context rs) (rs_heap rs) n = Some x" "\<not> is_completion x" for x
    using that assms(1) resumed_pending [OF assms(1)]
    by (simp add: resume_step_def c(1) c(2) [OF that(1)])
  have comp0: "\<exists>rs'. resume_step w n rs = Inr rs'
                     \<and> status_of (rs_state rs') n = Some COMPLETED
                     \<and> error_of (rs_state rs') n = None
                     \<and> rs_context rs' = rs_context rs \<and> rs_heap rs' = rs_heap rs"
    if "resume_data_for (rs_context rs) (rs_heap rs) n = Some x" "is_completion x"
       "collected_data_of x = None" for x
    using that completed_from_suspension [OF assms(1)]
    by (simp add: resume_step_def c(1) c(2) [OF that(1)])
  have comp1: "\<exists>rs'. resume_step w n rs = Inr rs'
                     \<and> status_of (rs_state rs') n = Some COMPLETED
                     \<and> error_of (rs_state rs') n = None
                     \<and> stored_output (rs_context rs') (rs_heap rs') n = Some step_output"
    if "resume_data_for (rs_context rs) (rs_heap rs) n = Some x" "is_completion x"
       "collected_data_of x = Some collected_data"
       "synthesize_output w collected_data = Inr step_output" for x collected_data step_output
  proof -
    obtain h' where h': "setitem (rs_context rs) n step_output (rs_heap rs) = Inr (rs_context rs, h')"
        "stored_output (rs_context rs) h' n = Some step_output"
      using setitem_stored [OF assms(4) assms(2)] by blast
    show ?thesis
      using that h' completed_from_suspension [OF assms(1)]
      by (simp add: resume_step_def c(1) c(2) [OF that(1)])
  qed
  show ?thesis
    using none pend comp0 comp1 by blast
qed


text \<open>
  C4 (as amended). In \<^verbatim>\<open>resume_from_checkpoint\<close> each step of
  \<^verbatim>\<open>suspended_at_steps\<close> is treated according to what the context holds under
  \<^verbatim>\<open><step>_resume_data\<close>, for a step that the restored state has, whose name is not a
  declared field of the context, in a context with its extras and its wrapped
  \<^verbatim>\<open>PipelineContext\<close>. With no such entry nothing changes: the step keeps its status and
  its error. With an entry that is not a mapping with a truthy \<^verbatim>\<open>complete\<close>, the step
  becomes PENDING with its error cleared, and the context is unchanged. With an entry that
  is a mapping with a truthy \<^verbatim>\<open>complete\<close>, the step becomes COMPLETED with its error
  cleared; the synthesized output is stored under the name of the step in the wrapped
  context when the entry has a \<^verbatim>\<open>collected_data\<close> field from which the output can be
  built, and without that field nothing is stored.
\<close>

theorem resume_step_transitions:
  assumes "has_step (rs_state rs) n"
    and "n \<notin> set dataclass_fields"
    and "extras_of (rs_context rs) (rs_heap rs) = Inr m"
    and "wrapped_of (rs_context rs) (rs_heap rs) = Inr (a, pc)"
  shows "(resume_data_for (rs_context rs) (rs_heap rs) n = None
            \<longrightarrow> resume_step w n rs = Inr rs)
       \<and> (\<forall>x. resume_data_for (rs_context rs) (rs_heap rs) n = Some x \<and> \<not> is_completion x
            \<longrightarrow> resume_outcome w n rs
                  = Inr (Some PENDING, None, stored_output (rs_context rs) (rs_heap rs) n))
       \<and> (\<forall>x. resume_data_for (rs_context rs) (rs_heap rs) n = Some x \<and> is_completion x
                \<and> collected_data_of x = None
            \<longrightarrow> resume_outcome w n rs
                  = Inr (Some COMPLETED, None, stored_output (rs_context rs) (rs_heap rs) n))
       \<and> (\<forall>x collected_data step_output.
              resume_data_for (rs_context rs) (rs_heap rs) n = Some x \<and> is_completion x
                \<and> collected_data_of x = Some collected_data
                \<and> synthesize_output w collected_data = Inr step_output
            \<longrightarrow> resume_outcome w n rs = Inr (Some COMPLETED, None, Some step_output))"
  using resume_step_cases [OF assms, of w]
  by (auto simp: resume_outcome_def)

lemmas resume_defs =
  resume_outcome_def resume_step_def resume_start_def resume_heap_def suspended_state_def
  contains_def getitem_def setitem_def extras_of_def wrapped_of_def dataclass_fields_def
  parent_context_def empty_context_def ctx_set_def stored_output_def resume_data_for_def
  is_completion_def collected_data_of_def synthesize_output_def transcript_part_def
  blank_line_def ada_payload_def ada_output_def flaky_world_def
  status_of_def error_of_def has_step_def update_step_def DAGState_init_def StepState_init_def
  mark_step_failed_def mark_step_suspended_def mark_step_resumed_def clear_step_error_def
  mark_step_completed_from_suspension_def plain_step_def SuspendContext_init_def Let_def

text \<open>
  The four cases at the suspended step \<^verbatim>\<open>ask\<close>: no resume data, resume data without the
  completion marker, the completion marker alone, and the resume data of scenario 5.
\<close>

theorem resume_step_transitions_witness:
  "resume_step flaky_world ''ask'' (resume_start Map.empty) = Inr (resume_start Map.empty)
   \<and> resume_outcome flaky_world ''ask''
         (resume_start [''ask_resume_data'' \<mapsto> PDict [(''answer'', PStr ''Ada'')]])
       = Inr (Some PENDING, None, None)
   \<and> resume_outcome flaky_world ''ask''
         (resume_start [''ask_resume_data'' \<mapsto> PDict [(''complete'', PBool True)]])
       = Inr (Some COMPLETED, None, None)
   \<and> resume_outcome flaky_world ''ask'' (resume_start [''ask_resume_data'' \<mapsto> ada_payload])
       = Inr (Some COMPLETED, None, Some ada_output)"
proof -
  have p: "has_step (rs_state (resume_start d)) ''ask''"
      "''ask'' \<notin> set dataclass_fields"
      "extras_of (rs_context (resume_start d)) (rs_heap (resume_start d)) = Inr Map.empty"
      "wrapped_of (rs_context (resume_start d)) (rs_heap (resume_start d))
         = Inr (0, empty_context\<lparr>ctx_data := d\<rparr>)" for d
    by (simp_all add: resume_defs)
  have s: "stored_output (rs_context (resume_start d)) (rs_heap (resume_start d)) ''ask'' = d ''ask''"
    for d
    by (simp add: resume_defs)
  have 1: "resume_data_for (rs_context (resume_start Map.empty)) (rs_heap (resume_start Map.empty))
             ''ask'' = None"
    by (simp add: resume_defs)
  have 2: "resume_data_for
             (rs_context (resume_start [''ask_resume_data'' \<mapsto> PDict [(''answer'', PStr ''Ada'')]]))
             (rs_heap (resume_start [''ask_resume_data'' \<mapsto> PDict [(''answer'', PStr ''Ada'')]]))
             ''ask'' = Some (Val (PDict [(''answer'', PStr ''Ada'')]))"
      "\<not> is_completion (Val (PDict [(''answer'', PStr ''Ada'')]))"
    by (simp_all add: resume_defs)
  have 3: "resume_data_for
             (rs_context (resume_start [''ask_resume_data'' \<mapsto> PDict [(''complete'', PBool True)]]))
             (rs_heap (resume_start [''ask_resume_data'' \<mapsto> PDict [(''complete'', PBool True)]]))
             ''ask'' = Some (Val (PDict [(''complete'', PBool True)]))"
      "is_completion (Val (PDict [(''complete'', PBool True)]))"
      "collected_data_of (Val (PDict [(''complete'', PBool True)])) = None"
    by (simp_all add: resume_defs)
  have 4: "resume_data_for (rs_context (resume_start [''ask_resume_data'' \<mapsto> ada_payload]))
             (rs_heap (resume_start [''ask_resume_data'' \<mapsto> ada_payload])) ''ask''
             = Some (Val ada_payload)"
      "is_completion (Val ada_payload)"
      "collected_data_of (Val ada_payload) = Some (PDict [(''full_name'', PStr ''Ada'')])"
      "synthesize_output flaky_world (PDict [(''full_name'', PStr ''Ada'')]) = Inr ada_output"
    by (simp_all add: resume_defs)
  show ?thesis
    using resume_step_transitions [OF p, of Map.empty flaky_world] 1
      resume_step_transitions [OF p, of "[''ask_resume_data'' \<mapsto> PDict [(''answer'', PStr ''Ada'')]]"
        flaky_world] 2
      resume_step_transitions [OF p, of "[''ask_resume_data'' \<mapsto> PDict [(''complete'', PBool True)]]"
        flaky_world] 3
      resume_step_transitions [OF p, of "[''ask_resume_data'' \<mapsto> ada_payload]" flaky_world] 4
      s
    by simp
qed

text \<open>
  The claim C4 as stated fails for a suspended step for which the context supplies no
  resume data: the step does not go back to PENDING and its error is not cleared. The whole
  \<^verbatim>\<open>resume_from_checkpoint\<close> of the checkpoint taken at \<^verbatim>\<open>ask\<close> returns without an
  exception and leaves the step SUSPENDED with its error.
\<close>

theorem resume_without_data_counterexample:
  "resume_outcome flaky_world ''ask'' (resume_start Map.empty)
     = Inr (Some SUSPENDED, Some (PluginSuspendedException ''need input'' (PStr ''name'')), None)
   \<and> fst (resume_from_checkpoint flaky_world (Some ask_checkpoint) True parent_context
            (resume_heap Map.empty) [plain_step ''ask'' [] True False] (new_executor 4 True []))
       = None
   \<and> status_of (state (snd (snd (resume_from_checkpoint flaky_world (Some ask_checkpoint) True
            parent_context (resume_heap Map.empty) [plain_step ''ask'' [] True False]
            (new_executor 4 True []))))) ''ask'' = Some SUSPENDED
   \<and> error_of (state (snd (snd (resume_from_checkpoint flaky_world (Some ask_checkpoint) True
            parent_context (resume_heap Map.empty) [plain_step ''ask'' [] True False]
            (new_executor 4 True []))))) ''ask''
       = Some (PluginSuspendedException ''need input'' (PStr ''name''))"
  by (simp add: resume_from_checkpoint_def restore_context_def inject_resume_data_def ctx_update_def
        add_missing_steps_def resume_defs ask_checkpoint_def exec_defs)

text \<open>
  Scenario 5 of the specification, with a step \<^verbatim>\<open>use\<close> that depends on \<^verbatim>\<open>ask\<close>: the
  resume data carried by the context complete \<^verbatim>\<open>ask\<close>, and the execution continues with
  \<^verbatim>\<open>use\<close>, which completes.
\<close>

lemma resume_scenario:
  "fst (resume_from_checkpoint (scripted_world (\<lambda>n. Inr (Some (PStr ''ok'')))) (Some ask_checkpoint)
          True (parent_context\<lparr>ec_resume_data := Val (PDict [(''ask'', ada_payload)])\<rparr>)
          (resume_heap Map.empty)
          [plain_step ''ask'' [] True False, plain_step ''use'' [Dep ''ask''] True False]
          (new_executor 4 True [])) = None
   \<and> map (status_of (state (snd (snd (resume_from_checkpoint
          (scripted_world (\<lambda>n. Inr (Some (PStr ''ok'')))) (Some ask_checkpoint)
          True (parent_context\<lparr>ec_resume_data := Val (PDict [(''ask'', ada_payload)])\<rparr>)
          (resume_heap Map.empty)
          [plain_step ''ask'' [] True False, plain_step ''use'' [Dep ''ask''] True False]
          (new_executor 4 True [])))))) [''ask'', ''use'']
       = [Some COMPLETED, Some COMPLETED]"
  by (simp add: resume_from_checkpoint_def restore_context_def inject_resume_data_def ctx_update_def
        add_missing_steps_def resume_defs ask_checkpoint_def exec_defs)

end
